theory Spec2Isabelle
  imports Main "HOL-Library.Sublist" "HOL-Library.Word"
begin

section \<open>View controller: the loader visibility counter (ui.js)\<close>

text \<open>
  \<^verbatim>\<open>UIManager\<close> keeps \<^verbatim>\<open>this.loader\<close> (the element with id \<^verbatim>\<open>loader\<close>, or null when
  the page has none), \<^verbatim>\<open>this.loaderContent\<close> (its \<^verbatim>\<open>.loader-content\<close> child, or null) and
  \<^verbatim>\<open>this.loaderCount\<close>. The element is modelled by the two things the code touches:
  whether its class list holds \<^verbatim>\<open>visible\<close>, and the inner text of the content child
  (\<open>None\<close> when there is no such child). The counter is a JavaScript number that only
  ever moves in steps of one; it is modelled as an unbounded \<open>int\<close>.
\<close>

record loader_el =
  visible :: bool
  innerText :: "string option"

record ui_manager =
  loader :: "loader_el option"
  loaderCount :: int

text \<open>Truthiness of an optional string argument: \<^verbatim>\<open>undefined\<close> and \<^verbatim>\<open>""\<close> are falsy.\<close>

definition truthy :: "string option \<Rightarrow> bool" where
  "truthy t = (case t of None \<Rightarrow> False | Some s \<Rightarrow> s \<noteq> [])"

text \<open>\<^verbatim>\<open>if (text && this.loaderContent) this.loaderContent.innerText = text;\<close>\<close>

definition setInnerText :: "string option \<Rightarrow> loader_el \<Rightarrow> loader_el" where
  "setInnerText t el =
     (if truthy t \<and> innerText el \<noteq> None then el\<lparr>innerText := t\<rparr> else el)"

definition showLoader :: "string option \<Rightarrow> ui_manager \<Rightarrow> ui_manager" where
  "showLoader t u =
     (let u1 = u\<lparr>loaderCount := loaderCount u + 1\<rparr>;
          u2 = u1\<lparr>loader := map_option (setInnerText t) (loader u1)\<rparr>
      in case loader u2 of
           None \<Rightarrow> u2
         | Some el \<Rightarrow>
             if loaderCount u2 > 0 then u2\<lparr>loader := Some (el\<lparr>visible := True\<rparr>)\<rparr> else u2)"

definition updateLoader :: "string option \<Rightarrow> ui_manager \<Rightarrow> ui_manager" where
  "updateLoader t u = u\<lparr>loader := map_option (setInnerText t) (loader u)\<rparr>"

definition hideLoader :: "ui_manager \<Rightarrow> ui_manager" where
  "hideLoader u =
     (let u1 = u\<lparr>loaderCount := loaderCount u - 1\<rparr>
      in case loader u1 of
           None \<Rightarrow> u1
         | Some el \<Rightarrow>
             if loaderCount u1 \<le> 0
             then u1\<lparr>loader := Some (setInnerText (Some ''Loading...'') (el\<lparr>visible := False\<rparr>)),
                     loaderCount := 0\<rparr>
             else u1)"

datatype loader_call = Show "string option" | Hide

fun loader_step :: "ui_manager \<Rightarrow> loader_call \<Rightarrow> ui_manager" where
  "loader_step u (Show t) = showLoader t u"
| "loader_step u Hide = hideLoader u"

definition loader_run :: "loader_call list \<Rightarrow> ui_manager \<Rightarrow> ui_manager" where
  "loader_run cs u = foldl loader_step u cs"

definition loader_shown :: "ui_manager \<Rightarrow> bool" where
  "loader_shown u = (case loader u of None \<Rightarrow> False | Some el \<Rightarrow> visible el)"

definition loader_ok :: "ui_manager \<Rightarrow> bool" where
  "loader_ok u = (loader u \<noteq> None \<and> 0 \<le> loaderCount u \<and> (loader_shown u \<longleftrightarrow> 0 < loaderCount u))"


section \<open>Execution-module bridge (glslviewer.js)\<close>

subsection \<open>JavaScript arrays and sets\<close>

text \<open>
  Arrays are objects: \<^verbatim>\<open>push\<close> changes the array every reference to it sees. They live
  in a store, a list of arrays addressed by position; a new array goes to the end.
  Reading an address that holds nothing yields the empty array.
\<close>

type_synonym addr = nat
type_synonym store = "string list list"

definition array_at :: "store \<Rightarrow> addr \<Rightarrow> string list" where
  "array_at h a = (if a < length h then h ! a else [])"

definition alloc :: "string list \<Rightarrow> store \<Rightarrow> addr \<times> store" where
  "alloc xs h = (length h, h @ [xs])"

definition push :: "addr \<Rightarrow> string \<Rightarrow> store \<Rightarrow> store" where
  "push a x h = h[a := array_at h a @ [x]]"

text \<open>
  \<^verbatim>\<open>[...new Set(xs)]\<close>: a \<^verbatim>\<open>Set\<close> keeps its members in insertion order and ignores
  the insertion of a member it already has.
\<close>

definition set_add :: "'a list \<Rightarrow> 'a \<Rightarrow> 'a list" where
  "set_add acc x = (if x \<in> set acc then acc else acc @ [x])"

definition set_spread :: "'a list \<Rightarrow> 'a list" where
  "set_spread xs = foldl set_add [] xs"

subsection \<open>The module and the bridge object\<close>

definition cmds_state :: "string list" where
  "cmds_state = [''plot'', ''textures'', ''buffers'', ''floor'', ''cubemap'', ''axis'', ''grid'',
                 ''bboxes'', ''fullscreen'']"

definition cmds_camera :: "string list" where
  "cmds_camera = [''camera_position'', ''camera_look_at'', ''camera'']"

definition cmds_listen :: "string list" where
  "cmds_listen = [''plane'', ''pcl_plane'', ''sphere'', ''pcl_sphere'', ''icosphere'', ''cylinder'']"

text \<open>
  What the bridge does to the outside, in order: \<^verbatim>\<open>console.log\<close>, \<^verbatim>\<open>console.error\<close>, the
  log callback given to the constructor (message, error flag), a call of
  \<^verbatim>\<open>Module.ccall\<close> (entry point, arguments), \<^verbatim>\<open>Module.FS.writeFile\<close>, the loader-text
  callback, and \<^verbatim>\<open>setTimeout\<close> (delay in milliseconds).
\<close>

datatype effect =
    ConsoleLog string
  | ConsoleError string
  | Log string bool
  | Ccall string "string list"
  | WriteFile string "8 word list"
  | LoaderText string
  | SetTimeout nat

text \<open>
  \<^verbatim>\<open>window.Module\<close> is the external module; only its interface is known. \<open>ccall\<close> is
  \<open>None\<close> when the handle has no such member, else the function from entry point and
  arguments to what the call does: \<open>Inl e\<close> throws \<open>e\<close>, \<open>Inr r\<close> returns \<open>r\<close>. \<open>FS\<close>
  likewise holds \<^verbatim>\<open>FS.writeFile\<close>, which throws (\<open>Some e\<close>) or returns.
\<close>

record wasm_module =
  ccall :: "(string \<Rightarrow> string list \<Rightarrow> string + string) option"
  FS :: "(string \<Rightarrow> 8 word list \<Rightarrow> string option) option"

record world =
  Module :: "wasm_module option"
  module_loaded :: bool
  store :: store
  cmdsHistory :: addr
  trace :: "effect list"

definition emit :: "effect \<Rightarrow> world \<Rightarrow> world" where
  "emit e w = w\<lparr>trace := trace w @ [e]\<rparr>"

definition isModuleReady :: "world \<Rightarrow> bool" where
  "isModuleReady w = (Module w \<noteq> None \<and> module_loaded w)"

text \<open>\<^verbatim>\<open>window.Module && window.Module.ccall\<close>: the entry point, when both are there.\<close>

definition module_ccall :: "world \<Rightarrow> (string \<Rightarrow> string list \<Rightarrow> string + string) option" where
  "module_ccall w = (case Module w of None \<Rightarrow> None | Some m \<Rightarrow> ccall m)"

definition listened :: "string \<Rightarrow> bool" where
  "listened cmd = list_ex (\<lambda>c. prefix c cmd) cmds_listen"

definition sendCommand :: "string \<Rightarrow> world \<Rightarrow> world" where
  "sendCommand cmd w =
     (let w1 = (if listened cmd
                then (emit (ConsoleLog (''Command added to history: '' @ cmd)) w)
                       \<lparr>store := push (cmdsHistory w) cmd (store w)\<rparr>
                else w);
          w2 = emit (Log (''> '' @ cmd) False) w1
      in case module_ccall w2 of
           Some f \<Rightarrow>
             (case f ''command'' [cmd] of
                Inr r \<Rightarrow> emit (Ccall ''command'' [cmd]) w2
              | Inl err \<Rightarrow>
                  emit (Log (''Error sending command: '' @ err) True)
                    (emit (Ccall ''command'' [cmd]) w2))
         | None \<Rightarrow> emit (Log ''Module not ready.'' True) w2)"

definition query :: "string \<Rightarrow> world \<Rightarrow> string option \<times> world" where
  "query cmd w =
     (case module_ccall w of
        Some f \<Rightarrow>
          (case f ''query'' [cmd] of
             Inr r \<Rightarrow> (Some r, emit (Ccall ''query'' [cmd]) w)
           | Inl err \<Rightarrow>
               (None, emit (ConsoleError (''Error querying '' @ cmd @ '': '' @ err))
                        (emit (Ccall ''query'' [cmd]) w)))
      | None \<Rightarrow> (None, w))"

text \<open>
  The \<^verbatim>\<open>forEach\<close> of \<^verbatim>\<open>getRetainedState\<close>: each name is queried, and a truthy answer
  (neither null nor the empty string) pushes \<^verbatim>\<open>cmd + ',' + answer\<close> onto the array
  \<open>results\<close>.
\<close>

fun check_cmds :: "string list \<Rightarrow> addr \<Rightarrow> world \<Rightarrow> world" where
  "check_cmds [] results w = w"
| "check_cmds (cmd # cmds) results w =
     (case query cmd w of
        (answer, w1) \<Rightarrow>
          check_cmds cmds results
            (if truthy answer
             then w1\<lparr>store := push results (cmd @ '','' @ the answer) (store w1)\<rparr>
             else w1))"

text \<open>
  \<^verbatim>\<open>getRetainedState\<close> returns the address of the array it built. The arrays it makes on
  the way and drops (\<^verbatim>\<open>cmds_to_check\<close>, the sets) are plain values here; \<open>results\<close>,
  which is pushed to, is in the store.
\<close>

definition getRetainedState :: "world \<Rightarrow> addr \<times> world" where
  "getRetainedState w =
     (case alloc (array_at (store w) (cmdsHistory w)) (store w) of
        (results, h1) \<Rightarrow>
          (let cmds_to_check = set_spread (cmds_state @ cmds_camera);
               w2 = check_cmds cmds_to_check results (w\<lparr>store := h1\<rparr>)
           in case alloc (set_spread (array_at (store w2) results)) (store w2) of
                (results', h3) \<Rightarrow> (results', w2\<lparr>store := h3\<rparr>)))"

definition getCmdsHistory :: "world \<Rightarrow> string list" where
  "getCmdsHistory w = array_at (store w) (cmdsHistory w)"

text \<open>The value a name contributes: the pair, when the query's answer is truthy.\<close>

definition query_answer :: "world \<Rightarrow> string \<Rightarrow> string option" where
  "query_answer w cmd = fst (query cmd w)"

definition derived_pairs :: "world \<Rightarrow> string list" where
  "derived_pairs w =
     concat (map (\<lambda>cmd. if truthy (query_answer w cmd)
                         then [cmd @ '','' @ the (query_answer w cmd)] else [])
                 (set_spread (cmds_state @ cmds_camera)))"

text \<open>
  What is left of a list when only the first copy of each element is kept and the
  elements of \<open>S\<close> are dropped; \<^const>\<open>set_spread\<close> is the case of the empty \<open>S\<close>.
\<close>

fun fresh :: "'a set \<Rightarrow> 'a list \<Rightarrow> 'a list" where
  "fresh S [] = []"
| "fresh S (x # xs) = (if x \<in> S then fresh S xs else x # fresh (insert x S) xs)"

text \<open>The pairs contributed by a list of names, in the order of the names.\<close>

definition pairs_of :: "world \<Rightarrow> string list \<Rightarrow> string list" where
  "pairs_of w cmds =
     concat (map (\<lambda>cmd. if truthy (query_answer w cmd)
                         then [cmd @ '','' @ the (query_answer w cmd)] else []) cmds)"

subsection \<open>A sample bridge state\<close>

text \<open>
  A loaded module that answers \<^verbatim>\<open>on\<close> for \<^verbatim>\<open>cubemap\<close>, \<^verbatim>\<open>off\<close> for \<^verbatim>\<open>plot\<close>, throws on
  \<^verbatim>\<open>camera\<close> and answers the empty string otherwise; a history with a repeated entry.
\<close>

definition demo_module :: wasm_module where
  "demo_module =
     \<lparr>ccall = Some (\<lambda>name args.
         if name = ''query'' then
           (if args = [''cubemap''] then Inr ''on''
            else if args = [''plot''] then Inr ''off''
            else if args = [''camera''] then Inl ''boom''
            else Inr [])
         else Inr []),
      FS = Some (\<lambda>name data. None)\<rparr>"

definition demo_world :: world where
  "demo_world =
     \<lparr>Module = Some demo_module, module_loaded = True,
      store = [[''sphere,1'', ''plane'', ''sphere,1'']], cmdsHistory = 0, trace = []\<rparr>"


subsection \<open>Writing an asset into the module's file system\<close>


text \<open>
  The promise \<^verbatim>\<open>loadToWasm\<close> returns ends up resolved or rejected.
\<close>

datatype promise = Resolved | Rejected string




















definition unready_world :: world where
  "unready_world = \<lparr>Module = None, module_loaded = False, store = [[]], cmdsHistory = 0, trace = []\<rparr>"

definition unloaded_world :: world where
  "unloaded_world = \<lparr>Module = Some demo_module, module_loaded = False, store = [[]], cmdsHistory = 0, trace = []\<rparr>"


section \<open>Editor surface (editor.js)\<close>

text \<open>
  The two buffers are named by the strings \<^verbatim>\<open>'frag'\<close> and \<^verbatim>\<open>'vert'\<close>.
\<close>

datatype tab = Frag | Vert

text \<open>
  The \<^verbatim>\<open>EditorManager\<close> with the part of the browser it talks to. \<open>activeTab\<close>,
  \<open>content\<close> and \<open>updateTimeout\<close> are its fields. Of the CodeMirror widget the model
  keeps the text (\<open>doc_text\<close>, what \<^verbatim>\<open>getValue()\<close> returns), the \<open>mode\<close> option, and
  for each line whether it carries the class \<^verbatim>\<open>error-line\<close> (\<open>lineClasses\<close>, so the
  line count is its length). \<open>handlers\<close> are the \<^verbatim>\<open>change\<close> listeners registered through
  \<^verbatim>\<open>onChange\<close>, each the name of its callback with its delay. Of the browser the model
  keeps a clock in milliseconds (\<open>now\<close>), the timers that are pending (handle, time
  due, name of the callback the timer's closure holds) and the last handle given out.
  \<open>invoked\<close> records every call of a callback, with the time of the call. A callback
  is the caller's code: the model records the call and takes the callback to leave the
  editor alone.
\<close>

record editor_manager =
  activeTab :: tab
  content :: "tab \<Rightarrow> string"
  updateTimeout :: "nat option"
  doc_text :: string
  mode :: string
  lineClasses :: "bool list"
  handlers :: "(nat \<times> nat) list"
  now :: nat
  timers :: "(nat \<times> nat \<times> nat) list"
  last_handle :: nat
  invoked :: "(nat \<times> nat) list"

text \<open>
  The number of lines of a text (line feeds plus one).
\<close>

definition count_lines :: "string \<Rightarrow> nat" where
  "count_lines v = Suc (length (filter (\<lambda>c. c = CHR 0x0A) v))"

text \<open>
  \<^verbatim>\<open>setTimeout\<close> returns a new handle, a positive integer, so a handle is truthy;
  \<^verbatim>\<open>clearTimeout\<close> drops the timer with that handle, if it is still pending.
\<close>

definition setTimeout :: "nat \<Rightarrow> nat \<Rightarrow> editor_manager \<Rightarrow> nat \<times> editor_manager" where
  "setTimeout callback delay s =
     (let h = last_handle s + 1
      in (h, s\<lparr>timers := timers s @ [(h, now s + delay, callback)], last_handle := h\<rparr>))"

definition clearTimeout :: "nat \<Rightarrow> editor_manager \<Rightarrow> editor_manager" where
  "clearTimeout h s = s\<lparr>timers := filter (\<lambda>x. fst x \<noteq> h) (timers s)\<rparr>"

definition clearErrorHighlighting :: "editor_manager \<Rightarrow> editor_manager" where
  "clearErrorHighlighting s = s\<lparr>lineClasses := map (\<lambda>c. False) (lineClasses s)\<rparr>"

definition onChange :: "nat \<Rightarrow> nat \<Rightarrow> editor_manager \<Rightarrow> editor_manager" where
  "onChange callback debounceMs s = s\<lparr>handlers := handlers s @ [(callback, debounceMs)]\<rparr>"

text \<open>
  The listener \<^verbatim>\<open>onChange(callback, debounceMs)\<close> registers for the widget's \<^verbatim>\<open>change\<close>
  event, and the closure it hands to \<^verbatim>\<open>setTimeout\<close>.
\<close>

definition change_listener :: "nat \<times> nat \<Rightarrow> editor_manager \<Rightarrow> editor_manager" where
  "change_listener l s =
     (let s1 = clearErrorHighlighting s;
          s2 = (case updateTimeout s1 of Some h \<Rightarrow> clearTimeout h s1 | None \<Rightarrow> s1)
      in case setTimeout (fst l) (snd l) s2 of
           (h, s3) \<Rightarrow> s3\<lparr>updateTimeout := Some h\<rparr>)"

definition timer_body :: "nat \<Rightarrow> editor_manager \<Rightarrow> editor_manager" where
  "timer_body callback s =
     (let currentCode = doc_text s;
          s1 = (if currentCode \<noteq> content s (activeTab s)
                then s\<lparr>invoked := invoked s @ [(callback, now s)]\<rparr> else s)
      in s1\<lparr>updateTimeout := None\<rparr>)"

text \<open>
  The widget fires \<^verbatim>\<open>change\<close> on every change of its text, typed or set by
  \<^verbatim>\<open>setValue\<close>, and runs the listeners in the order of their registration before the
  change returns. \<^verbatim>\<open>setValue\<close> replaces all lines, so no line keeps a class; typing is
  modelled as \<^verbatim>\<open>setValue\<close> of the text it leads to.
\<close>

definition fire_change :: "editor_manager \<Rightarrow> editor_manager" where
  "fire_change s = foldl (\<lambda>s' l. change_listener l s') s (handlers s)"

definition setValue :: "string \<Rightarrow> editor_manager \<Rightarrow> editor_manager" where
  "setValue v s = fire_change (s\<lparr>doc_text := v, lineClasses := replicate (count_lines v) False\<rparr>)"

definition getValue :: "editor_manager \<Rightarrow> string" where
  "getValue s = doc_text s"

definition switchTab :: "tab \<Rightarrow> nat option \<Rightarrow> editor_manager \<Rightarrow> editor_manager" where
  "switchTab type onSwitch s =
     (if type = activeTab s then s
      else
        (let s1 = (case updateTimeout s of
                     None \<Rightarrow> s
                   | Some h \<Rightarrow>
                       (case onSwitch of
                          None \<Rightarrow> clearTimeout h s
                        | Some f \<Rightarrow> (clearTimeout h s)\<lparr>invoked := invoked s @ [(f, now s)]\<rparr>));
             s2 = s1\<lparr>content := (content s1)(activeTab s1 := getValue s1)\<rparr>;
             s3 = s2\<lparr>activeTab := type\<rparr>;
             s4 = (if type = Frag then s3\<lparr>mode := ''x-shader/x-fragment''\<rparr>
                   else s3\<lparr>mode := ''x-shader/x-vertex''\<rparr>)
         in setValue (content s4 (activeTab s4)) s4))"

text \<open>
  Time passes: \<open>advance ms\<close> moves the clock by \<open>ms\<close> milliseconds and runs the timers
  that fall due, earliest first, each at the time it is due. A browser may run a timer
  later than that, never earlier.
\<close>

definition fire :: "nat \<times> nat \<times> nat \<Rightarrow> editor_manager \<Rightarrow> editor_manager" where
  "fire x s =
     timer_body (snd (snd x))
       (s\<lparr>now := max (now s) (fst (snd x)), timers := filter (\<lambda>y. fst y \<noteq> fst x) (timers s)\<rparr>)"

definition advance :: "nat \<Rightarrow> editor_manager \<Rightarrow> editor_manager" where
  "advance ms s =
     (let t = now s + ms;
          due = sort_key (\<lambda>x. fst (snd x)) (filter (\<lambda>x. fst (snd x) \<le> t) (timers s))
      in (foldl (\<lambda>s' x. fire x s') s due)\<lparr>now := t\<rparr>)"

text \<open>
  What happens to an editor: an edit that leaves the widget with the given text, time
  passing, and a click on a tab (\<^verbatim>\<open>switchTab(type, onSwitch)\<close>; the callback may be left
  out).
\<close>

datatype input = Edit string | Wait nat | SwitchTab tab "nat option"

fun editor_step :: "editor_manager \<Rightarrow> input \<Rightarrow> editor_manager" where
  "editor_step s (Edit v) = setValue v s"
| "editor_step s (Wait ms) = advance ms s"
| "editor_step s (SwitchTab type onSwitch) = switchTab type onSwitch s"

definition editor_run :: "input list \<Rightarrow> editor_manager \<Rightarrow> editor_manager" where
  "editor_run ins s = foldl editor_step s ins"

text \<open>
  The constructor's state for the two default texts, and the sample editors of the
  witnesses below.
\<close>

definition new_editor :: "string \<Rightarrow> string \<Rightarrow> editor_manager" where
  "new_editor frag vert =
     \<lparr>activeTab = Frag, content = (\<lambda>t. case t of Frag \<Rightarrow> frag | Vert \<Rightarrow> vert),
      updateTimeout = None, doc_text = frag, mode = ''x-shader/x-fragment'',
      lineClasses = replicate (count_lines frag) False, handlers = [], now = 0, timers = [],
      last_handle = 0, invoked = []\<rparr>"

definition demo_editor :: editor_manager where
  "demo_editor = onChange 7 300 (new_editor ''void main() {}'' ''// vert'')"

text \<open>
  Error highlighting. The listener for \<^verbatim>\<open>wasm-stderr\<close> matches the event's text against
  \<^verbatim>\<open>/^0:(\d+):(.*)$/\<close>: the text is \<^verbatim>\<open>0:\<close>, the longest run of decimal digits (at
  least one), a colon, and a rest up to the end of the text that holds no line terminator
  (line feed, carriage return, and U+2028 and U+2029, which are three bytes each in the
  UTF-8 text of the model). \<^verbatim>\<open>parseInt\<close> reads the digits as a decimal number; the model
  keeps it exact, which agrees with the comparison in JavaScript for documents of fewer
  than \<open>2^53\<close> lines.
\<close>

definition lineCount :: "editor_manager \<Rightarrow> nat" where
  "lineCount s = length (lineClasses s)"

definition addLineClass :: "nat \<Rightarrow> editor_manager \<Rightarrow> editor_manager" where
  "addLineClass n s = s\<lparr>lineClasses := (lineClasses s)[n := True]\<rparr>"

definition is_digit :: "char \<Rightarrow> bool" where
  "is_digit c = (c \<in> set ''0123456789'')"

definition digit_val :: "char \<Rightarrow> nat" where
  "digit_val c = (case map_of (zip ''0123456789'' [0, 1, 2, 3, 4, 5, 6, 7, 8, 9]) c of
                    Some n \<Rightarrow> n | None \<Rightarrow> 0)"

definition parseInt :: "string \<Rightarrow> nat" where
  "parseInt ds = foldl (\<lambda>n d. 10 * n + digit_val d) 0 ds"

fun no_line_break :: "string \<Rightarrow> bool" where
  "no_line_break [] = True"
| "no_line_break (c # cs) =
     (c \<noteq> CHR 0x0A \<and> c \<noteq> CHR 0x0D
      \<and> \<not> (c = CHR 0xE2 \<and> (prefix [CHR 0x80, CHR 0xA8] cs \<or> prefix [CHR 0x80, CHR 0xA9] cs))
      \<and> no_line_break cs)"

fun match_error :: "string \<Rightarrow> (string \<times> string) option" where
  "match_error (c0 # c1 # rest) =
     (if c0 = CHR ''0'' \<and> c1 = CHR '':''
      then (let ds = takeWhile is_digit rest
            in if ds = [] then None
               else (case dropWhile is_digit rest of
                       [] \<Rightarrow> None
                     | c # msg \<Rightarrow>
                         if c = CHR '':'' \<and> no_line_break msg then Some (ds, msg) else None))
      else None)"
| "match_error cs = None"

definition on_wasm_stderr :: "string \<Rightarrow> editor_manager \<Rightarrow> editor_manager" where
  "on_wasm_stderr detail s =
     (case match_error detail of
        None \<Rightarrow> s
      | Some m \<Rightarrow>
          (let line = int (parseInt (fst m));
               cmLine = line - 1
           in if cmLine \<ge> 0 \<and> cmLine < int (lineCount s) then addLineClass (nat cmLine) s else s))"

definition three_lines :: editor_manager where
  "three_lines = new_editor [CHR ''a'', CHR 0x0A, CHR ''b'', CHR 0x0A, CHR ''c''] ''// vert''"

text \<open>
  Every pending timer is the one \<open>updateTimeout\<close> names. The constructor's state has no
  timer, and every step keeps the property (\<open>editor_run_tracked\<close> below).
\<close>

definition timers_tracked :: "editor_manager \<Rightarrow> bool" where
  "timers_tracked s = (\<forall>x \<in> set (timers s). updateTimeout s = Some (fst x))"

text \<open>
  A run of edits, each followed by a pause.
\<close>

definition burst :: "(string \<times> nat) list \<Rightarrow> input list" where
  "burst es = concat (map (\<lambda>e. [Edit (fst e), Wait (snd e)]) es)"

definition one_edit :: editor_manager where
  "one_edit = editor_run [Edit ''a''] demo_editor"


section \<open>Remote persistence client (github.js)\<close>

text \<open>
  What an awaited operation or a call that may throw comes to: an exception with its
  message, or a value.
\<close>

datatype 'a outcome = Throws string | Returns 'a

text \<open>
  An entry of the derivation history, the profile \<^verbatim>\<open>fetchGitHubUserInfo\<close> returns, and
  \<^verbatim>\<open>this.currentGistAuthors\<close>.
\<close>

record owner_info =
  login :: string
  owner_id :: nat
  avatar_url :: string

record history_entry =
  gistId :: string
  owner :: "owner_info option"
  loadedAt :: "string option"
  savedAt :: "string option"

record author =
  author_login :: string
  author_name :: string
  author_avatar_url :: string
  author_blog :: string
  author_html_url :: string

record gist_authors =
  first_author :: "author option"
  firstGistId :: "string option"
  last_author :: "author option"
  lastGistId :: "string option"

text \<open>
  What the client does to the outside, in order: a \<^verbatim>\<open>fetch\<close> of a URL, the \<^verbatim>\<open>POST\<close> of a
  new gist (file name, content), an \<^verbatim>\<open>alert\<close>, a console line, and the calls of the
  caller's callbacks and of \<^verbatim>\<open>updateAuthorInfo\<close>.
\<close>

datatype gh_event =
    Fetch string
  | Post string string
  | Alert string
  | Console string
  | OnStart
  | OnUpdate string
  | OnSuccess
  | OnError string
  | UpdateAuthorInfo

text \<open>
  The \<^verbatim>\<open>GitHubIntegration\<close> object; \<open>stored_history\<close> is the \<^verbatim>\<open>gist_history\<close> item of
  \<^verbatim>\<open>localStorage\<close>.
\<close>

record github =
  token :: "string option"
  user :: "string option"
  currentGistId :: "string option"
  gistHistory :: "history_entry list"
  currentGistAuthors :: gist_authors
  stored_history :: "history_entry list option"
  events :: "gh_event list"

text \<open>
  What the remote API answers to \<^verbatim>\<open>GET /gists/{id}\<close>, and the shader project a gist's JSON
  file parses to. \<open>files\<close> lists the file names in the order of \<^verbatim>\<open>Object.keys\<close>.
\<close>

record gist_file =
  truncated :: bool
  file_content :: string
  raw_url :: string

record gist_data =
  data_owner :: "owner_info option"
  files :: "(string \<times> gist_file) list"

record gist_response =
  ok :: bool
  statusText :: string
  json_body :: "gist_data outcome"

record project =
  history :: "history_entry list option"
  frag :: string
  vert :: string
  commands :: "string list"
  assets :: "(string \<times> string) list"

text \<open>
  Which of the optional callbacks the caller passed, and everything the network and the
  built-ins answer during one \<^verbatim>\<open>loadGist\<close>: the gist request, the request for the raw
  file, \<^verbatim>\<open>JSON.parse\<close>, the profile requests (null on any failure) and the time.
\<close>

record callbacks =
  onStart :: bool
  onUpdate :: bool
  onSuccess :: bool
  onError :: bool

record load_replies =
  gist_reply :: "gist_response outcome"
  raw_reply :: "string outcome"
  JSON_parse :: "string \<Rightarrow> project outcome"
  user_reply :: "string \<Rightarrow> author option"
  clock :: string

text \<open>
  Small steps shared by the methods.
\<close>

definition log_event :: "gh_event \<Rightarrow> github \<Rightarrow> github" where
  "log_event e g = g\<lparr>events := events g @ [e]\<rparr>"

definition call_back :: "bool \<Rightarrow> gh_event \<Rightarrow> github \<Rightarrow> github" where
  "call_back present e g = (if present then log_event e g else g)"

definition saveGistHistory :: "github \<Rightarrow> github" where
  "saveGistHistory g =
     log_event (Console ''Saved gist history to localStorage'') (g\<lparr>stored_history := Some (gistHistory g)\<rparr>)"

text \<open>
  \<^verbatim>\<open>findIndex\<close> by gist id, then replace at the index or \<^verbatim>\<open>push\<close>.
\<close>

fun findIndex :: "('a \<Rightarrow> bool) \<Rightarrow> 'a list \<Rightarrow> nat option" where
  "findIndex P [] = None"
| "findIndex P (x # xs) = (if P x then Some 0 else map_option Suc (findIndex P xs))"

definition put_entry :: "history_entry \<Rightarrow> history_entry list \<Rightarrow> history_entry list" where
  "put_entry info hist =
     (case findIndex (\<lambda>h. gistId h = gistId info) hist of
        Some existingIndex \<Rightarrow> hist[existingIndex := info]
      | None \<Rightarrow> hist @ [info])"

text \<open>
  \<^verbatim>\<open>fetchGitHubUserInfo\<close> picks the URL by \<^verbatim>\<open>/^\d+$/\<close> and catches every failure.
\<close>

definition all_digits :: "string \<Rightarrow> bool" where
  "all_digits u = (u \<noteq> [] \<and> (\<forall>c \<in> set u. is_digit c))"

definition fetchGitHubUserInfo :: "(string \<Rightarrow> author option) \<Rightarrow> string \<Rightarrow> github \<Rightarrow> author option \<times> github" where
  "fetchGitHubUserInfo reply usernameOrId g =
     (let url = (if all_digits usernameOrId
                 then ''https://api.github.com/user/'' @ usernameOrId
                 else ''https://api.github.com/users/'' @ usernameOrId)
      in (reply usernameOrId, log_event (Fetch url) g))"

text \<open>
  \<^verbatim>\<open>shader.json\<close> if the gist has it, else the first file whose name ends in \<^verbatim>\<open>.json\<close>.
\<close>

definition find_shader_file :: "(string \<times> gist_file) list \<Rightarrow> gist_file option" where
  "find_shader_file fs =
     (case map_of fs ''shader.json'' of
        Some f \<Rightarrow> Some f
      | None \<Rightarrow>
          (case filter (\<lambda>nf. suffix ''.json'' (fst nf)) fs of
             [] \<Rightarrow> None
           | nf # rest \<Rightarrow> Some (snd nf)))"

text \<open>
  The \<^verbatim>\<open>catch\<close> block of \<^verbatim>\<open>loadGist\<close>.
\<close>

definition load_failed :: "callbacks \<Rightarrow> string \<Rightarrow> github \<Rightarrow> string option \<times> github" where
  "load_failed cb message g =
     (Some message,
      call_back (onError cb) (OnError message)
        ((log_event (Console (''Error loading Gist: '' @ message)) g)\<lparr>currentGistId := None\<rparr>))"

text \<open>
  The rest of the \<^verbatim>\<open>try\<close> block once the file's text is at hand.
\<close>

definition load_authors :: "load_replies \<Rightarrow> string \<Rightarrow> history_entry \<Rightarrow> github \<Rightarrow> github" where
  "load_authors r gist_id info g =
     (let firstOwner = (case gistHistory g of
                          [] \<Rightarrow> owner info
                        | h # hs \<Rightarrow> (case owner h of Some o1 \<Rightarrow> Some o1 | None \<Rightarrow> owner info));
          firstId = (case gistHistory g of
                       [] \<Rightarrow> gist_id
                     | h # hs \<Rightarrow> (if gistId h \<noteq> [] then gistId h else gist_id));
          lastOwner = owner info;
          g1 = (case lastOwner of
                  None \<Rightarrow> g
                | Some o2 \<Rightarrow>
                    (case fetchGitHubUserInfo (user_reply r) (login o2) g of
                       (a, g') \<Rightarrow>
                         g'\<lparr>currentGistAuthors :=
                               (currentGistAuthors g')\<lparr>last_author := a, lastGistId := Some gist_id\<rparr>\<rparr>))
      in case firstOwner of
           None \<Rightarrow> g1
         | Some o1 \<Rightarrow>
             if login o1 = [] then g1
             else (case fetchGitHubUserInfo (user_reply r) (login o1) g1 of
                     (a, g') \<Rightarrow>
                       g'\<lparr>currentGistAuthors :=
                             (currentGistAuthors g')\<lparr>first_author := a, firstGistId := Some firstId\<rparr>\<rparr>))"

definition load_parsed :: "callbacks \<Rightarrow> load_replies \<Rightarrow> string \<Rightarrow> history_entry \<Rightarrow> string \<Rightarrow> github \<Rightarrow> string option \<times> github" where
  "load_parsed cb r gist_id info jsonContent g =
     (case JSON_parse r jsonContent of
        Throws e \<Rightarrow> load_failed cb e g
      | Returns json \<Rightarrow>
          (let g1 = g\<lparr>gistHistory := (case history json of Some h \<Rightarrow> h | None \<Rightarrow> [])\<rparr>;
               g2 = g1\<lparr>gistHistory := put_entry info (gistHistory g1)\<rparr>;
               g3 = saveGistHistory g2;
               g4 = load_authors r gist_id info g3;
               g5 = log_event UpdateAuthorInfo g4
           in (None, call_back (onSuccess cb) OnSuccess g5)))"

text \<open>
  \<^verbatim>\<open>loadGist\<close> is asynchronous. \<open>loadGist_begin\<close> is what a call does before it first
  awaits: the guard, the assignment of \<open>currentGistId\<close>, \<^verbatim>\<open>onStart\<close>, and the \<^verbatim>\<open>fetch\<close>;
  it tells whether a request went out. \<open>loadGist_resume\<close> is the continuation, run when
  the reply is there, on the state of that moment; it returns the error message of a
  failed load. \<open>loadGist\<close> is a call nothing else interleaves with.
\<close>

definition loadGist_resume :: "callbacks \<Rightarrow> load_replies \<Rightarrow> string \<Rightarrow> github \<Rightarrow> string option \<times> github" where
  "loadGist_resume cb r gist_id g =
     (case gist_reply r of
        Throws e \<Rightarrow> load_failed cb e g
      | Returns response \<Rightarrow>
          if \<not> ok response then load_failed cb (statusText response) g
          else
            (case json_body response of
               Throws e \<Rightarrow> load_failed cb e g
             | Returns data \<Rightarrow>
                 (let info = \<lparr>gistId = gist_id, owner = data_owner data,
                              loadedAt = Some (clock r), savedAt = None\<rparr>
                  in case find_shader_file (files data) of
                       None \<Rightarrow> load_failed cb ''No valid shader JSON found in Gist'' g
                     | Some shaderFile \<Rightarrow>
                         if truncated shaderFile
                         then (let g1 = log_event (Fetch (raw_url shaderFile))
                                          (call_back (onUpdate cb) (OnUpdate ''Fetching raw Gist content...'') g)
                               in case raw_reply r of
                                    Throws e \<Rightarrow> load_failed cb e g1
                                  | Returns jsonContent \<Rightarrow> load_parsed cb r gist_id info jsonContent g1)
                         else load_parsed cb r gist_id info (file_content shaderFile) g)))"

definition loadGist_begin :: "callbacks \<Rightarrow> string \<Rightarrow> github \<Rightarrow> bool \<times> github" where
  "loadGist_begin cb gist_id g =
     (if currentGistId g = Some gist_id
      then (False, log_event (Console (''Gist '' @ gist_id @ '' already loading/loaded.'')) g)
      else (True,
            log_event (Fetch (''https://api.github.com/gists/'' @ gist_id))
              (log_event (Console (''Loading Gist: '' @ gist_id))
                 (call_back (onStart cb) OnStart (g\<lparr>currentGistId := Some gist_id\<rparr>)))))"

definition loadGist :: "callbacks \<Rightarrow> load_replies \<Rightarrow> string \<Rightarrow> github \<Rightarrow> string option \<times> github" where
  "loadGist cb r gist_id g =
     (case loadGist_begin cb gist_id g of
        (False, g1) \<Rightarrow> (None, g1)
      | (True, g1) \<Rightarrow> loadGist_resume cb r gist_id g1)"

text \<open>
  How often the gist with this id has been requested.
\<close>

definition gist_fetches :: "string \<Rightarrow> github \<Rightarrow> nat" where
  "gist_fetches gist_id g = length (filter (\<lambda>e. e = Fetch (''https://api.github.com/gists/'' @ gist_id)) (events g))"










definition load_fails :: "load_replies \<Rightarrow> bool" where
  "load_fails r =
     (case gist_reply r of
        Throws e \<Rightarrow> True
      | Returns response \<Rightarrow>
          \<not> ok response \<or>
          (case json_body response of
             Throws e \<Rightarrow> True
           | Returns data \<Rightarrow>
               (case find_shader_file (files data) of
                  None \<Rightarrow> True
                | Some shaderFile \<Rightarrow>
                    if truncated shaderFile
                    then (case raw_reply r of
                            Throws e \<Rightarrow> True
                          | Returns jsonContent \<Rightarrow>
                              (case JSON_parse r jsonContent of Throws e \<Rightarrow> True | Returns json \<Rightarrow> False))
                    else (case JSON_parse r (file_content shaderFile) of
                            Throws e \<Rightarrow> True | Returns json \<Rightarrow> False))))"

text \<open>
  Sample states and replies.
\<close>

definition entry_of :: "string \<Rightarrow> history_entry" where
  "entry_of gid = \<lparr>gistId = gid, owner = None, loadedAt = Some ''2026-01-01T00:00:00.000Z'', savedAt = None\<rparr>"

definition signed_in :: github where
  "signed_in =
     \<lparr>token = Some ''t0ken'', user = Some ''ada'', currentGistId = None,
      gistHistory = [entry_of ''g1'', entry_of ''g2''],
      currentGistAuthors = \<lparr>first_author = None, firstGistId = None, last_author = None, lastGistId = None\<rparr>,
      stored_history = None, events = []\<rparr>"




definition not_found :: load_replies where
  "not_found =
     \<lparr>gist_reply = Returns \<lparr>ok = False, statusText = ''Not Found'', json_body = Throws []\<rparr>,
      raw_reply = Throws [],
      JSON_parse = (\<lambda>c. Throws ''SyntaxError''),
      user_reply = (\<lambda>u. None),
      clock = ''2026-01-02T00:00:00.000Z''\<rparr>"

definition all_callbacks :: callbacks where
  "all_callbacks = \<lparr>onStart = True, onUpdate = True, onSuccess = True, onError = True\<rparr>"


section \<open>Loader counter: proofs\<close>

lemma showLoader_count: "loaderCount (showLoader t u) = loaderCount u + 1"
  by (simp add: showLoader_def Let_def split: option.splits)

lemma showLoader_present: "(loader (showLoader t u) = None) = (loader u = None)"
  by (simp add: showLoader_def Let_def split: option.splits)

lemma hideLoader_present: "(loader (hideLoader u) = None) = (loader u = None)"
  by (simp add: hideLoader_def Let_def split: option.splits)

lemma hideLoader_count:
  "loader u \<noteq> None \<Longrightarrow> loaderCount (hideLoader u) = max 0 (loaderCount u - 1)"
  by (auto simp: hideLoader_def Let_def split: option.splits)

lemma hideLoader_count_absent:
  "loader u = None \<Longrightarrow> loaderCount (hideLoader u) = loaderCount u - 1"
  by (simp add: hideLoader_def Let_def)

lemma showLoader_ok:
  assumes "loader u \<noteq> None" "0 \<le> loaderCount u"
  shows "loader_ok (showLoader t u)"
  using assms
  by (auto simp: loader_ok_def loader_shown_def showLoader_def Let_def split: option.splits)

lemma hideLoader_ok:
  assumes "loader_ok u"
  shows "loader_ok (hideLoader u)"
  using assms
  by (auto simp: loader_ok_def loader_shown_def hideLoader_def Let_def setInnerText_def
           split: option.splits)

lemma hideLoader_ok0:
  assumes "loader u \<noteq> None" "loaderCount u = 0"
  shows "loader_ok (hideLoader u)"
  using assms
  by (auto simp: loader_ok_def loader_shown_def hideLoader_def Let_def setInnerText_def
           split: option.splits)

lemma loader_step_ok: "loader_ok u \<Longrightarrow> loader_ok (loader_step u c)"
proof (cases c)
  case (Show t)
  assume "loader_ok u"
  then have "loader u \<noteq> None" "0 \<le> loaderCount u" by (simp_all add: loader_ok_def)
  then show ?thesis using Show by (simp add: showLoader_ok)
next
  case Hide
  assume "loader_ok u"
  then show ?thesis using Hide by (simp add: hideLoader_ok)
qed

lemma loader_run_ok: "loader_ok u \<Longrightarrow> loader_ok (loader_run cs u)"
  unfolding loader_run_def
  by (induction cs arbitrary: u) (simp_all add: loader_step_ok)

lemma loader_step_ok0:
  "loader u \<noteq> None \<Longrightarrow> loaderCount u = 0 \<Longrightarrow> loader_ok (loader_step u c)"
  by (cases c) (simp_all add: showLoader_ok hideLoader_ok0)

lemma loader_run_present: "(loader (loader_run cs u) = None) = (loader u = None)"
  unfolding loader_run_def
proof (induction cs arbitrary: u)
  case Nil
  show ?case by simp
next
  case (Cons c cs)
  show ?case
    by (cases c) (simp_all add: Cons.IH showLoader_present hideLoader_present)
qed

lemma loader_run_nonneg:
  assumes "loader u \<noteq> None" "0 \<le> loaderCount u"
  shows "0 \<le> loaderCount (loader_run cs u)"
  using assms unfolding loader_run_def
proof (induction cs arbitrary: u)
  case Nil
  then show ?case by simp
next
  case (Cons c cs)
  have "loader (loader_step u c) \<noteq> None"
    using Cons.prems(1) by (cases c) (simp_all add: showLoader_present hideLoader_present)
  moreover have "0 \<le> loaderCount (loader_step u c)"
    using Cons.prems by (cases c) (simp_all add: showLoader_count hideLoader_count)
  ultimately show ?case using Cons.IH by simp
qed

lemma loader_run_shown:
  assumes "loader u \<noteq> None" "loaderCount u = 0" "cs \<noteq> [] \<or> \<not> loader_shown u"
  shows "loader_shown (loader_run cs u) \<longleftrightarrow> 0 < loaderCount (loader_run cs u)"
proof (cases cs)
  case Nil
  with assms show ?thesis by (simp add: loader_run_def)
next
  case (Cons c cs')
  have "loader_ok (loader_step u c)" using assms(1,2) by (rule loader_step_ok0)
  then have "loader_ok (loader_run cs' (loader_step u c))" by (rule loader_run_ok)
  then show ?thesis using Cons by (simp add: loader_run_def loader_ok_def)
qed

text \<open>
  Claim C1, as amended. Provided the page has a loader element (\<^verbatim>\<open>this.loader\<close> is not
  null) and the counter starts at 0: after every prefix of every sequence of
  \<^verbatim>\<open>showLoader\<close>/\<^verbatim>\<open>hideLoader\<close> calls the counter is at least 0; after the whole sequence
  the element carries the class \<^verbatim>\<open>visible\<close> exactly when the counter is positive (for the
  empty sequence this needs an element that does not start out visible); each
  \<^verbatim>\<open>showLoader\<close> adds one to the counter and each \<^verbatim>\<open>hideLoader\<close> subtracts one, clamped
  at 0.
\<close>

theorem loader_counter_clamped:
  assumes "loader u \<noteq> None" and "loaderCount u = 0"
  shows "(\<forall>k \<le> length cs. 0 \<le> loaderCount (loader_run (take k cs) u))
       \<and> (cs \<noteq> [] \<or> \<not> loader_shown u \<longrightarrow>
            (loader_shown (loader_run cs u) \<longleftrightarrow> 0 < loaderCount (loader_run cs u)))
       \<and> (\<forall>t v. loaderCount (showLoader t v) = loaderCount v + 1)
       \<and> (\<forall>v. loader v \<noteq> None \<longrightarrow> loaderCount (hideLoader v) = max 0 (loaderCount v - 1))"
proof -
  have a: "\<forall>k \<le> length cs. 0 \<le> loaderCount (loader_run (take k cs) u)"
    using assms by (simp add: loader_run_nonneg)
  have b: "cs \<noteq> [] \<or> \<not> loader_shown u \<longrightarrow>
            (loader_shown (loader_run cs u) \<longleftrightarrow> 0 < loaderCount (loader_run cs u))"
    using assms loader_run_shown by blast
  show ?thesis using a b showLoader_count hideLoader_count by blast
qed

theorem loader_counter_clamped_witness:
  "loaderCount (loader_run [Hide, Show None, Show (Some ''x''), Hide, Hide, Hide]
      \<lparr>loader = Some \<lparr>visible = False, innerText = Some ''Loading...''\<rparr>, loaderCount = 0\<rparr>) = 0
   \<and> \<not> loader_shown (loader_run [Hide, Show None, Show (Some ''x''), Hide, Hide, Hide]
      \<lparr>loader = Some \<lparr>visible = False, innerText = Some ''Loading...''\<rparr>, loaderCount = 0\<rparr>)
   \<and> loader_shown (loader_run [Hide, Show None]
      \<lparr>loader = Some \<lparr>visible = False, innerText = Some ''Loading...''\<rparr>, loaderCount = 0\<rparr>)"
  using loader_counter_clamped
    [of "\<lparr>loader = Some \<lparr>visible = False, innerText = Some ''Loading...''\<rparr>, loaderCount = 0\<rparr>"
        "[Hide, Show None, Show (Some ''x''), Hide, Hide, Hide]"]
  by (simp add: loader_run_def showLoader_def hideLoader_def loader_shown_def Let_def
        setInnerText_def truthy_def)

text \<open>
  Claim C1 as stated fails when the page has no loader element: the clamp sits inside
  \<^verbatim>\<open>if (this.loader && this.loaderCount <= 0)\<close>, so one \<^verbatim>\<open>hideLoader\<close> from 0 leaves -1.
\<close>

theorem loader_counter_negative_without_element:
  "loaderCount (loader_run [Hide] \<lparr>loader = None, loaderCount = 0\<rparr>) = - 1"
  by (simp add: loader_run_def hideLoader_def Let_def)

section \<open>Retained state of the bridge: proofs\<close>


lemma foldl_set_add: "foldl set_add acc xs = acc @ fresh (set acc) xs"
  by (induction xs arbitrary: acc) (simp_all add: set_add_def)

lemma set_spread_fresh: "set_spread xs = fresh {} xs"
  by (simp add: set_spread_def foldl_set_add)

lemma set_fresh: "set (fresh S xs) = set xs - S"
  by (induction xs arbitrary: S) auto

lemma distinct_fresh: "distinct (fresh S xs)"
  by (induction xs arbitrary: S) (auto simp: set_fresh)

lemma fresh_append: "fresh S (xs @ ys) = fresh S xs @ fresh (S \<union> set xs) ys"
  by (induction xs arbitrary: S) (simp_all add: insert_absorb)

lemma fresh_distinct: "distinct xs \<Longrightarrow> fresh S xs = filter (\<lambda>x. x \<notin> S) xs"
proof (induction xs arbitrary: S)
  case Nil
  show ?case by simp
next
  case (Cons x xs)
  have "filter (\<lambda>y. y \<notin> insert x S) xs = filter (\<lambda>y. y \<notin> S) xs"
    using Cons.prems by (intro filter_cong) auto
  then show ?case using Cons by simp
qed


lemma set_spread_distinct: "distinct (set_spread xs)"
  by (simp add: set_spread_fresh distinct_fresh)

lemma set_spread_set: "set (set_spread xs) = set xs"
  by (simp add: set_spread_fresh set_fresh)

lemma set_spread_append:
  "distinct ys \<Longrightarrow> set_spread (xs @ ys) = set_spread xs @ filter (\<lambda>y. y \<notin> set xs) ys"
  by (simp add: set_spread_fresh fresh_append fresh_distinct)

lemma set_spread_id: "distinct xs \<Longrightarrow> set_spread xs = xs"
  by (simp add: set_spread_fresh fresh_distinct)

lemma cmds_to_check_eq: "set_spread (cmds_state @ cmds_camera) = cmds_state @ cmds_camera"
  by (simp add: set_spread_def set_add_def cmds_state_def cmds_camera_def)

subsection \<open>The store\<close>

lemma array_at_alloc_new: "array_at (snd (alloc xs h)) (fst (alloc xs h)) = xs"
  by (simp add: alloc_def array_at_def)

lemma array_at_alloc_old: "a < length h \<Longrightarrow> array_at (snd (alloc xs h)) a = array_at h a"
  by (simp add: alloc_def array_at_def nth_append)

lemma array_at_push_same: "a < length h \<Longrightarrow> array_at (push a x h) a = array_at h a @ [x]"
  by (simp add: push_def array_at_def)

lemma array_at_push_other: "a \<noteq> b \<Longrightarrow> array_at (push a x h) b = array_at h b"
  by (simp add: push_def array_at_def)

lemma length_push: "length (push a x h) = length h"
  by (simp add: push_def)

subsection \<open>Queries leave the bridge alone\<close>

lemma module_ccall_emit: "module_ccall (emit e w) = module_ccall w"
  by (simp add: module_ccall_def emit_def)

lemma module_ccall_store: "module_ccall (w\<lparr>store := h\<rparr>) = module_ccall w"
  by (simp add: module_ccall_def)

lemma query_store: "store (snd (query cmd w)) = store w"
  by (simp add: query_def emit_def split: option.splits sum.splits)

lemma query_cmdsHistory: "cmdsHistory (snd (query cmd w)) = cmdsHistory w"
  by (simp add: query_def emit_def split: option.splits sum.splits)

lemma query_module_ccall: "module_ccall (snd (query cmd w)) = module_ccall w"
  by (simp add: query_def module_ccall_emit split: option.splits sum.splits)

lemma query_answer_cong: "module_ccall w' = module_ccall w \<Longrightarrow> query_answer w' cmd = query_answer w cmd"
  by (simp add: query_answer_def query_def split: option.splits sum.splits)

lemma check_cmds_cmdsHistory: "cmdsHistory (check_cmds cmds r w) = cmdsHistory w"
  by (induction cmds arbitrary: w) (simp_all add: query_cmdsHistory split: prod.splits, (metis query_cmdsHistory snd_conv)+)

lemma pairs_of_cong: "module_ccall w' = module_ccall w \<Longrightarrow> pairs_of w' cmds = pairs_of w cmds"
proof -
  assume "module_ccall w' = module_ccall w"
  then have h: "query_answer w' = query_answer w"
    by (intro ext) (rule query_answer_cong)
  show ?thesis unfolding pairs_of_def h by (rule refl)
qed

lemma pairs_of_Cons:
  "pairs_of w (cmd # cmds) =
     (if truthy (query_answer w cmd) then [cmd @ '','' @ the (query_answer w cmd)] else []) @ pairs_of w cmds"
  by (simp add: pairs_of_def)

lemma check_cmds_store:
  "r < length (store w) \<Longrightarrow>
     store (check_cmds cmds r w) = (store w)[r := array_at (store w) r @ pairs_of w cmds]"
proof (induction cmds arbitrary: w)
  case Nil
  then show ?case by (simp add: pairs_of_def array_at_def)
next
  case (Cons cmd cmds)
  obtain answer w1 where q: "query cmd w = (answer, w1)" by (cases "query cmd w")
  have a: "answer = query_answer w cmd" using q by (simp add: query_answer_def)
  have s1: "store w1 = store w" using query_store [of cmd w] q by simp
  have m1: "module_ccall w1 = module_ccall w" using query_module_ccall [of cmd w] q by simp
  show ?case
  proof (cases "truthy answer")
    case True
    let ?p = "cmd @ '','' @ the answer"
    let ?w2 = "w1\<lparr>store := push r ?p (store w1)\<rparr>"
    have len: "r < length (store ?w2)" using Cons.prems s1 by (simp add: length_push)
    have m2: "module_ccall ?w2 = module_ccall w" using m1 by (simp add: module_ccall_store)
    have "store (check_cmds (cmd # cmds) r w) = store (check_cmds cmds r ?w2)"
      using q True by simp
    also have "\<dots> = (store ?w2)[r := array_at (store ?w2) r @ pairs_of ?w2 cmds]"
      using len by (rule Cons.IH)
    also have "\<dots> = (store w)[r := array_at (store w) r @ pairs_of w (cmd # cmds)]"
      using Cons.prems True a s1 pairs_of_cong [OF m2]
      by (simp add: pairs_of_Cons array_at_push_same) (simp add: push_def)
    finally show ?thesis .
  next
    case False
    have "store (check_cmds (cmd # cmds) r w) = store (check_cmds cmds r w1)"
      using q False by simp
    also have "\<dots> = (store w1)[r := array_at (store w1) r @ pairs_of w1 cmds]"
      using Cons.prems s1 by (intro Cons.IH) simp
    also have "\<dots> = (store w)[r := array_at (store w) r @ pairs_of w (cmd # cmds)]"
      using False a s1 pairs_of_cong [OF m1] by (simp add: pairs_of_Cons)
    finally show ?thesis .
  qed
qed

lemma array_at_snoc: "array_at (h @ [xs]) (length h) = xs"
  by (simp add: array_at_def)

lemma derived_pairs_eq: "derived_pairs w = pairs_of w (cmds_state @ cmds_camera)"
  by (simp add: derived_pairs_def pairs_of_def cmds_to_check_eq)

lemma getRetainedState_eq:
  "getRetainedState w =
     (Suc (length (store w)),
      (check_cmds (set_spread (cmds_state @ cmds_camera)) (length (store w))
         (w\<lparr>store := store w @ [array_at (store w) (cmdsHistory w)]\<rparr>))
       \<lparr>store := store w @ [array_at (store w) (cmdsHistory w) @ derived_pairs w,
                           set_spread (array_at (store w) (cmdsHistory w) @ derived_pairs w)]\<rparr>)"
proof -
  let ?H = "array_at (store w) (cmdsHistory w)"
  let ?w1 = "w\<lparr>store := store w @ [?H]\<rparr>"
  let ?cmds = "set_spread (cmds_state @ cmds_camera)"
  have m: "module_ccall ?w1 = module_ccall w" by (simp add: module_ccall_store)
  have "store (check_cmds ?cmds (length (store w)) ?w1) =
          (store ?w1)[length (store w) := array_at (store ?w1) (length (store w)) @ pairs_of ?w1 ?cmds]"
    by (rule check_cmds_store) simp
  also have "\<dots> = store w @ [?H @ derived_pairs w]"
    using pairs_of_cong [OF m] by (simp add: array_at_snoc derived_pairs_eq cmds_to_check_eq)
  finally have st: "store (check_cmds ?cmds (length (store w)) ?w1) = store w @ [?H @ derived_pairs w]" .
  show ?thesis
    by (simp add: getRetainedState_def alloc_def Let_def st array_at_snoc)
qed

lemma takeWhile_pair:
  "CHR '','' \<notin> set cmd \<Longrightarrow> takeWhile (\<lambda>c. c \<noteq> CHR '','') (cmd @ CHR '','' # a) = cmd"
  by (induction cmd) auto

lemma names_of_pairs:
  "\<forall>c \<in> set cmds. CHR '','' \<notin> set c \<Longrightarrow>
     map (takeWhile (\<lambda>c. c \<noteq> CHR '','')) (pairs_of w cmds) = filter (\<lambda>c. truthy (query_answer w c)) cmds"
  by (induction cmds) (simp_all add: pairs_of_def takeWhile_pair)

lemma distinct_pairs_of:
  assumes "distinct cmds" "\<forall>c \<in> set cmds. CHR '','' \<notin> set c"
  shows "distinct (pairs_of w cmds)"
proof -
  have "distinct (map (takeWhile (\<lambda>c. c \<noteq> CHR '','')) (pairs_of w cmds))"
    using assms by (simp add: names_of_pairs)
  then show ?thesis by (simp add: distinct_map)
qed

lemma distinct_derived_pairs: "distinct (derived_pairs w)"
  unfolding derived_pairs_eq
  by (rule distinct_pairs_of) (simp_all add: cmds_state_def cmds_camera_def)

lemma pairs_of_mem:
  "x \<in> set (pairs_of w cmds) \<longleftrightarrow>
     (\<exists>cmd \<in> set cmds. \<exists>a. query_answer w cmd = Some a \<and> a \<noteq> [] \<and> x = cmd @ '','' @ a)"
  by (induction cmds) (auto simp: pairs_of_def truthy_def split: option.splits)

lemma not_listened_name:
  "cmd \<in> set (cmds_state @ cmds_camera) \<Longrightarrow> \<not> listened (cmd @ '','' @ a)"
  by (auto simp: cmds_state_def cmds_camera_def listened_def cmds_listen_def)

lemma not_listened_pair: "x \<in> set (derived_pairs w) \<Longrightarrow> \<not> listened x"
  unfolding derived_pairs_eq pairs_of_mem using not_listened_name by blast

lemma fresh_insert: "fresh (insert x S) xs = filter (\<lambda>y. y \<noteq> x) (fresh S xs)"
proof (induction xs arbitrary: S)
  case Nil
  show ?case by simp
next
  case (Cons y ys)
  have nx: "filter (\<lambda>z. z \<noteq> x) (fresh (insert x S) ys) = fresh (insert x S) ys"
    by (simp add: set_fresh)
  show ?case
  proof (cases "y = x")
    case True
    then show ?thesis using Cons.IH [of S] nx by simp
  next
    case False
    then show ?thesis using Cons.IH [of S] Cons.IH [of "insert y S"]
      by (simp add: insert_commute)
  qed
qed

lemma set_spread_Cons: "set_spread (x # xs) = x # filter (\<lambda>y. y \<noteq> x) (set_spread xs)"
  by (simp add: set_spread_fresh fresh_insert)

lemma remdups_snoc: "remdups (ys @ [x]) = filter (\<lambda>y. y \<noteq> x) (remdups ys) @ [x]"
  by (induction ys) auto

lemma set_spread_remdups: "set_spread xs = rev (remdups (rev xs))"
  by (induction xs) (simp_all add: set_spread_Cons remdups_snoc rev_filter, simp add: set_spread_def)

text \<open>
  Claim C6. The array returned by \<^verbatim>\<open>getRetainedState\<close> has no duplicates; it is the
  command history followed by the derived \<^verbatim>\<open>name,value\<close> pairs, with only the first copy
  of each entry kept (first-occurrence order: reversing, keeping last copies and
  reversing back gives the same list); so the history entries come first, then the pairs
  that are not already history entries, and when the history holds allow-listed commands
  only, all pairs follow it unchanged. A pair is derived for a name exactly from a
  non-empty answer of the module's query for that name.
\<close>

theorem getRetainedState_result:
  "case getRetainedState w of
     (r, w') \<Rightarrow>
       distinct (array_at (store w') r)
     \<and> array_at (store w') r = set_spread (getCmdsHistory w @ derived_pairs w)
     \<and> set_spread (getCmdsHistory w @ derived_pairs w) = rev (remdups (rev (getCmdsHistory w @ derived_pairs w)))
     \<and> array_at (store w') r =
         set_spread (getCmdsHistory w) @ filter (\<lambda>p. p \<notin> set (getCmdsHistory w)) (derived_pairs w)
     \<and> ((\<forall>h \<in> set (getCmdsHistory w). listened h) \<longrightarrow>
          array_at (store w') r = set_spread (getCmdsHistory w) @ derived_pairs w)
     \<and> (\<forall>x \<in> set (derived_pairs w).
          \<exists>cmd \<in> set (cmds_state @ cmds_camera). \<exists>a.
            query_answer w cmd = Some a \<and> a \<noteq> [] \<and> x = cmd @ '','' @ a)"
proof -
  let ?H = "getCmdsHistory w" and ?P = "derived_pairs w"
  let ?R = "set_spread (?H @ ?P)"
  have r: "array_at (store (snd (getRetainedState w))) (fst (getRetainedState w)) = ?R"
    by (simp add: getRetainedState_eq getCmdsHistory_def array_at_def nth_append)
  have d: "distinct ?R" by (rule set_spread_distinct)
  have o: "?R = set_spread ?H @ filter (\<lambda>p. p \<notin> set ?H) ?P"
    by (rule set_spread_append) (rule distinct_derived_pairs)
  have l: "(\<forall>h \<in> set ?H. listened h) \<longrightarrow> ?R = set_spread ?H @ ?P"
  proof
    assume "\<forall>h \<in> set ?H. listened h"
    then have "\<forall>p \<in> set ?P. p \<notin> set ?H" using not_listened_pair by blast
    then have "filter (\<lambda>p. p \<notin> set ?H) ?P = ?P" by simp
    then show "?R = set_spread ?H @ ?P" using o by simp
  qed
  have m: "\<forall>x \<in> set ?P. \<exists>cmd \<in> set (cmds_state @ cmds_camera). \<exists>a.
            query_answer w cmd = Some a \<and> a \<noteq> [] \<and> x = cmd @ '','' @ a"
    using pairs_of_mem [of _ w "cmds_state @ cmds_camera"] unfolding derived_pairs_eq by blast
  show ?thesis
    using r d o l m set_spread_remdups [of "?H @ ?P"]
    by (simp add: case_prod_unfold)
qed

theorem getRetainedState_result_witness:
  "array_at (store (snd (getRetainedState demo_world))) (fst (getRetainedState demo_world))
     = [''sphere,1'', ''plane'', ''plot,off'', ''cubemap,on'']"
  using getRetainedState_result [of demo_world]
  by (simp add: case_prod_unfold demo_world_def demo_module_def getCmdsHistory_def array_at_def
        derived_pairs_def query_answer_def query_def module_ccall_def truthy_def
        set_spread_def set_add_def cmds_state_def cmds_camera_def listened_def cmds_listen_def emit_def)

text \<open>
  Claim C10. \<^verbatim>\<open>getRetainedState\<close> does not change the command history: the field still
  points to the same array, the array holds what it held, the returned array is another
  one, and a second call leaves the history as it was, too. The history array is one the
  store holds, as the constructor's \<^verbatim>\<open>[]\<close> is.
\<close>

theorem getRetainedState_keeps_history:
  assumes "cmdsHistory w < length (store w)"
  shows "case getRetainedState w of
           (r, w') \<Rightarrow>
             cmdsHistory w' = cmdsHistory w
           \<and> getCmdsHistory w' = getCmdsHistory w
           \<and> r \<noteq> cmdsHistory w
           \<and> getCmdsHistory (snd (getRetainedState w')) = getCmdsHistory w"
proof -
  have one: "cmdsHistory (snd (getRetainedState v)) = cmdsHistory v
           \<and> (cmdsHistory v < length (store v) \<longrightarrow>
                getCmdsHistory (snd (getRetainedState v)) = getCmdsHistory v
              \<and> cmdsHistory v < length (store (snd (getRetainedState v)))
              \<and> fst (getRetainedState v) \<noteq> cmdsHistory v)" for v
    by (simp add: getRetainedState_eq check_cmds_cmdsHistory getCmdsHistory_def array_at_def
          nth_append)
  show ?thesis
    using assms one [of w] one [of "snd (getRetainedState w)"]
    by (simp add: case_prod_unfold)
qed

theorem getRetainedState_keeps_history_witness:
  "cmdsHistory demo_world < length (store demo_world)
   \<and> getCmdsHistory (snd (getRetainedState demo_world)) = [''sphere,1'', ''plane'', ''sphere,1'']
   \<and> getCmdsHistory (snd (getRetainedState (snd (getRetainedState demo_world))))
       = [''sphere,1'', ''plane'', ''sphere,1'']"
proof -
  have h: "cmdsHistory demo_world < length (store demo_world)"
    by (simp add: demo_world_def)
  have g: "getCmdsHistory demo_world = [''sphere,1'', ''plane'', ''sphere,1'']"
    by (simp add: getCmdsHistory_def array_at_def demo_world_def)
  show ?thesis
    using h g getRetainedState_keeps_history [OF h]
    by (simp add: case_prod_unfold)
qed


section \<open>Asset writes and module readiness: proofs\<close>










lemma sendCommand_no_ccall:
  assumes "module_ccall w = None"
  shows "sendCommand cmd w =
           (if listened cmd
            then w\<lparr>store := push (cmdsHistory w) cmd (store w),
                   trace := trace w @ [ConsoleLog (''Command added to history: '' @ cmd),
                                       Log (''> '' @ cmd) False, Log ''Module not ready.'' True]\<rparr>
            else w\<lparr>trace := trace w @ [Log (''> '' @ cmd) False, Log ''Module not ready.'' True]\<rparr>)"
  using assms by (simp add: sendCommand_def Let_def emit_def module_ccall_def)

lemma sendCommand_ccall:
  assumes "module_ccall w = Some f"
  shows "sendCommand cmd w =
           (if listened cmd
            then w\<lparr>store := push (cmdsHistory w) cmd (store w),
                   trace := trace w @ [ConsoleLog (''Command added to history: '' @ cmd),
                                       Log (''> '' @ cmd) False, Ccall ''command'' [cmd]]
                              @ (case f ''command'' [cmd] of
                                   Inl err \<Rightarrow> [Log (''Error sending command: '' @ err) True]
                                 | Inr r \<Rightarrow> [])\<rparr>
            else w\<lparr>trace := trace w @ [Log (''> '' @ cmd) False, Ccall ''command'' [cmd]]
                              @ (case f ''command'' [cmd] of
                                   Inl err \<Rightarrow> [Log (''Error sending command: '' @ err) True]
                                 | Inr r \<Rightarrow> [])\<rparr>)"
  using assms by (simp add: sendCommand_def Let_def emit_def module_ccall_def split: sum.splits)

lemma query_no_ccall: "module_ccall w = None \<Longrightarrow> query cmd w = (None, w)"
  by (simp add: query_def)

lemma query_ccall:
  assumes "module_ccall w = Some f"
  shows "query cmd w =
           (case f ''query'' [cmd] of
              Inr r \<Rightarrow> (Some r, w\<lparr>trace := trace w @ [Ccall ''query'' [cmd]]\<rparr>)
            | Inl err \<Rightarrow>
                (None, w\<lparr>trace := trace w @ [Ccall ''query'' [cmd],
                                             ConsoleError (''Error querying '' @ cmd @ '': '' @ err)]\<rparr>))"
  using assms by (simp add: query_def emit_def split: sum.splits)

text \<open>
  Claim C8, as amended. \<^verbatim>\<open>isModuleReady\<close> is (module handle present and load-completion
  flag set), but \<^verbatim>\<open>sendCommand\<close> and \<^verbatim>\<open>query\<close> test something else: that the handle
  and its \<^verbatim>\<open>ccall\<close> member are present. When that test fails, \<^verbatim>\<open>query\<close> returns null
  and changes nothing, and \<^verbatim>\<open>sendCommand\<close> still appends an allow-listed command to the
  history and echoes the command before it logs \<^verbatim>\<open>Module not ready.\<close>; it makes no call
  into the module. When the test succeeds they call the module, whatever the flag says,
  and an exception of the call is caught: \<^verbatim>\<open>query\<close> logs it and returns null,
  \<^verbatim>\<open>sendCommand\<close> logs it. Neither method has an exceptional outcome.
\<close>

theorem bridge_tests_ccall:
  "(isModuleReady w \<longleftrightarrow> Module w \<noteq> None \<and> module_loaded w)
   \<and> (module_ccall w = None \<longrightarrow>
        query cmd w = (None, w)
      \<and> sendCommand cmd w =
          (if listened cmd
           then w\<lparr>store := push (cmdsHistory w) cmd (store w),
                  trace := trace w @ [ConsoleLog (''Command added to history: '' @ cmd),
                                      Log (''> '' @ cmd) False, Log ''Module not ready.'' True]\<rparr>
           else w\<lparr>trace := trace w @ [Log (''> '' @ cmd) False, Log ''Module not ready.'' True]\<rparr>))
   \<and> (\<forall>f. module_ccall w = Some f \<longrightarrow>
        query cmd w =
          (case f ''query'' [cmd] of
             Inr r \<Rightarrow> (Some r, w\<lparr>trace := trace w @ [Ccall ''query'' [cmd]]\<rparr>)
           | Inl err \<Rightarrow>
               (None, w\<lparr>trace := trace w @ [Ccall ''query'' [cmd],
                                            ConsoleError (''Error querying '' @ cmd @ '': '' @ err)]\<rparr>))
      \<and> sendCommand cmd w =
          (if listened cmd
           then w\<lparr>store := push (cmdsHistory w) cmd (store w),
                  trace := trace w @ [ConsoleLog (''Command added to history: '' @ cmd),
                                      Log (''> '' @ cmd) False, Ccall ''command'' [cmd]]
                             @ (case f ''command'' [cmd] of
                                  Inl err \<Rightarrow> [Log (''Error sending command: '' @ err) True]
                                | Inr r \<Rightarrow> [])\<rparr>
           else w\<lparr>trace := trace w @ [Log (''> '' @ cmd) False, Ccall ''command'' [cmd]]
                             @ (case f ''command'' [cmd] of
                                  Inl err \<Rightarrow> [Log (''Error sending command: '' @ err) True]
                                | Inr r \<Rightarrow> [])\<rparr>))"
  using sendCommand_no_ccall [of w cmd] query_no_ccall [of w cmd]
        sendCommand_ccall [of w _ cmd] query_ccall [of w _ cmd]
  by (simp add: isModuleReady_def)

theorem bridge_tests_ccall_witness:
  "module_ccall unready_world = None
   \<and> query ''cubemap'' unready_world = (None, unready_world)
   \<and> trace (sendCommand ''plot,rgb'' unready_world) = [Log ''> plot,rgb'' False, Log ''Module not ready.'' True]
   \<and> store (sendCommand ''plot,rgb'' unready_world) = store unready_world"
proof -
  have h: "module_ccall unready_world = None"
    by (simp add: module_ccall_def unready_world_def)
  have l: "\<not> listened ''plot,rgb''"
    by (simp add: listened_def cmds_listen_def)
  show ?thesis
    using h l bridge_tests_ccall [of unready_world "''cubemap''"]
          bridge_tests_ccall [of unready_world "''plot,rgb''"]
    by (simp add: unready_world_def)
qed

text \<open>
  Claim C8 as stated fails. Without a module, \<^verbatim>\<open>sendCommand('sphere')\<close> grows the command
  history. With a module whose load-completion flag is not set, the bridge is not ready,
  yet \<^verbatim>\<open>query\<close> and \<^verbatim>\<open>sendCommand\<close> call into the module.
\<close>

theorem sendCommand_unready_counterexample:
  "\<not> isModuleReady unready_world
   \<and> getCmdsHistory unready_world = []
   \<and> getCmdsHistory (sendCommand ''sphere'' unready_world) = [''sphere'']
   \<and> \<not> isModuleReady unloaded_world
   \<and> fst (query ''cubemap'' unloaded_world) = Some ''on''
   \<and> Ccall ''command'' [''sphere''] \<in> set (trace (sendCommand ''sphere'' unloaded_world))"
  by (simp add: isModuleReady_def unready_world_def unloaded_world_def getCmdsHistory_def
        array_at_def sendCommand_def listened_def cmds_listen_def emit_def push_def
        module_ccall_def query_def demo_module_def Let_def)


section \<open>Editor surface: proofs\<close>

lemma clear_tracked:
  assumes "timers_tracked s"
  shows "timers (case updateTimeout s of Some h \<Rightarrow> clearTimeout h s | None \<Rightarrow> s) = []"
proof (cases "updateTimeout s")
  case None
  then show ?thesis using assms by (cases "timers s") (auto simp: timers_tracked_def)
next
  case (Some h)
  have "filter (\<lambda>x. fst x \<noteq> h) (timers s) = []"
    using assms Some by (auto simp: timers_tracked_def filter_empty_conv)
  then show ?thesis using Some by (simp add: clearTimeout_def)
qed

lemma change_listener_tracked:
  assumes "timers_tracked s"
  shows "change_listener (cb, D) s =
           s\<lparr>lineClasses := map (\<lambda>c. False) (lineClasses s),
             timers := [(last_handle s + 1, now s + D, cb)],
             last_handle := last_handle s + 1,
             updateTimeout := Some (last_handle s + 1)\<rparr>"
proof -
  have "timers (case updateTimeout s of Some h \<Rightarrow> clearTimeout h s | None \<Rightarrow> s) = []"
    using assms by (rule clear_tracked)
  then show ?thesis
    by (cases "updateTimeout s")
       (simp_all add: change_listener_def clearErrorHighlighting_def setTimeout_def clearTimeout_def
          Let_def)
qed

lemma setValue_single:
  assumes "handlers s = [(cb, D)]" "timers_tracked s"
  shows "setValue v s =
           s\<lparr>doc_text := v,
             lineClasses := replicate (count_lines v) False,
             timers := [(last_handle s + 1, now s + D, cb)],
             last_handle := last_handle s + 1,
             updateTimeout := Some (last_handle s + 1)\<rparr>"
proof -
  let ?s = "s\<lparr>doc_text := v, lineClasses := replicate (count_lines v) False\<rparr>"
  have t: "timers_tracked ?s" using assms(2) by (simp add: timers_tracked_def)
  have "setValue v s = change_listener (cb, D) ?s"
    using assms(1) by (simp add: setValue_def fire_change_def)
  then show ?thesis using change_listener_tracked [OF t, of cb D] by simp
qed

lemma advance_short:
  assumes "timers s = [(h, due, cb)]" "now s + ms < due"
  shows "advance ms s = s\<lparr>now := now s + ms\<rparr>"
  using assms by (simp add: advance_def Let_def)

lemma advance_due:
  assumes "timers s = [(h, due, cb)]" "due \<le> now s + ms"
  shows "advance ms s =
           (timer_body cb (s\<lparr>now := max (now s) due, timers := []\<rparr>))\<lparr>now := now s + ms\<rparr>"
  using assms by (simp add: advance_def Let_def fire_def)

lemma edit_wait_short:
  assumes "handlers s = [(cb, D)]" "timers_tracked s" "g < D"
  shows "advance g (setValue v s) =
           s\<lparr>doc_text := v,
             lineClasses := replicate (count_lines v) False,
             timers := [(last_handle s + 1, now s + D, cb)],
             last_handle := last_handle s + 1,
             updateTimeout := Some (last_handle s + 1),
             now := now s + g\<rparr>"
  using assms by (simp add: setValue_single [OF assms(1,2)] advance_short [where h = "last_handle s + 1" and due = "now s + D" and cb = cb])

lemma edit_wait_long:
  assumes "handlers s = [(cb, D)]" "timers_tracked s" "D \<le> W"
  shows "invoked (advance W (setValue v s)) =
           invoked s @ (if v \<noteq> content s (activeTab s) then [(cb, now s + D)] else [])"
  using assms
  by (simp add: setValue_single [OF assms(1,2)]
        advance_due [where h = "last_handle s + 1" and due = "now s + D" and cb = cb]
        timer_body_def Let_def)

lemma burst_quiet:
  assumes "handlers s = [(cb, D)]" "timers_tracked s" "\<forall>e \<in> set es. snd e < D"
  shows "handlers (editor_run (burst es) s) = [(cb, D)]
       \<and> timers_tracked (editor_run (burst es) s)
       \<and> invoked (editor_run (burst es) s) = invoked s
       \<and> content (editor_run (burst es) s) = content s
       \<and> activeTab (editor_run (burst es) s) = activeTab s
       \<and> now (editor_run (burst es) s) = now s + sum_list (map snd es)"
  using assms
proof (induction es arbitrary: s)
  case Nil
  then show ?case by (simp add: burst_def editor_run_def)
next
  case (Cons e es)
  let ?s1 = "advance (snd e) (setValue (fst e) s)"
  have g: "snd e < D" using Cons.prems by simp
  note st = edit_wait_short [OF Cons.prems(1,2) g, of "fst e"]
  have h1: "handlers ?s1 = [(cb, D)]" using Cons.prems(1) by (simp add: st)
  have t1: "timers_tracked ?s1" by (simp add: st timers_tracked_def)
  have r: "editor_run (burst (e # es)) s = editor_run (burst es) ?s1"
    by (simp add: burst_def editor_run_def)
  have "\<forall>e \<in> set es. snd e < D" using Cons.prems by simp
  from Cons.IH [OF h1 t1 this] show ?case unfolding r by (simp add: st)
qed

text \<open>
  Claim C3. One \<^verbatim>\<open>onChange\<close> listener with a delay of 300 ms; five edits, 50 ms apart.
  Until 300 ms have passed since the fifth edit no callback runs. Once they have, the
  callback has run exactly once, 300 ms after the fifth edit, if the text then differs
  from the active buffer's snapshot, and not at all if it equals the snapshot. An edit
  leaves exactly one timer pending, due 300 ms later: the one before is cancelled.
\<close>

theorem debounce_five_edits:
  assumes "handlers s = [(cb, 300)]" and "timers_tracked s"
  shows "(\<forall>W \<ge> 300.
            invoked (editor_run [Edit v1, Wait 50, Edit v2, Wait 50, Edit v3, Wait 50,
                                 Edit v4, Wait 50, Edit v5, Wait W] s)
              = invoked s @ (if v5 \<noteq> content s (activeTab s) then [(cb, now s + 200 + 300)] else []))
       \<and> (\<forall>W < 300.
            invoked (editor_run [Edit v1, Wait 50, Edit v2, Wait 50, Edit v3, Wait 50,
                                 Edit v4, Wait 50, Edit v5, Wait W] s) = invoked s)
       \<and> (\<forall>v. timers (setValue v s) = [(last_handle s + 1, now s + 300, cb)])"
proof -
  let ?es = "[(v1, 50), (v2, 50), (v3, 50), (v4, 50)]"
  let ?s4 = "editor_run (burst ?es) s"
  have q: "\<forall>e \<in> set ?es. snd e < (300::nat)" by simp
  note b = burst_quiet [OF assms q]
  have h4: "handlers ?s4 = [(cb, 300)]" and t4: "timers_tracked ?s4" using b by simp_all
  have run: "editor_run [Edit v1, Wait 50, Edit v2, Wait 50, Edit v3, Wait 50,
                         Edit v4, Wait 50, Edit v5, Wait W] s = advance W (setValue v5 ?s4)" for W
    by (simp add: editor_run_def burst_def)
  have long: "invoked (advance W (setValue v5 ?s4))
                = invoked s @ (if v5 \<noteq> content s (activeTab s) then [(cb, now s + 200 + 300)] else [])"
    if "300 \<le> W" for W
    using edit_wait_long [OF h4 t4 that, of v5] b by simp
  have short: "invoked (advance W (setValue v5 ?s4)) = invoked s" if "W < 300" for W
    using edit_wait_short [OF h4 t4 that, of v5] b by simp
  have one: "timers (setValue v s) = [(last_handle s + 1, now s + 300, cb)]" for v
    by (simp add: setValue_single [OF assms])
  show ?thesis using long short one unfolding run by blast
qed

lemma match_error_form:
  assumes "ds \<noteq> []" "\<forall>c \<in> set ds. is_digit c" "no_line_break msg"
  shows "match_error (''0:'' @ ds @ '':'' @ msg) = Some (ds, msg)"
proof -
  have nd: "\<not> is_digit CHR '':''" by (simp add: is_digit_def)
  have tw: "takeWhile is_digit (ds @ CHR '':'' # msg) = ds"
    using assms(2) nd by (simp add: takeWhile_tail)
  have dw: "dropWhile is_digit (ds @ CHR '':'' # msg) = CHR '':'' # msg"
    using assms(2) nd by (simp add: dropWhile_append3)
  show ?thesis using assms(1,3) tw dw by simp
qed

text \<open>
  Claim C2, as amended. For an event text \<^verbatim>\<open>0:<line>:<text>\<close> the listener marks the
  zero-based line \<^verbatim>\<open><line> - 1\<close> when \<^verbatim>\<open><line>\<close> is at least 1 and at most the number of
  lines of the document, and changes nothing otherwise. So \<^verbatim>\<open>0:12:syntax error\<close> marks
  line 11 of a document of at least 12 lines, and \<^verbatim>\<open>0:0:x\<close> marks no line at all. No
  branch of the listener throws.
\<close>

theorem error_line_mapping:
  assumes "ds \<noteq> []" and "\<forall>c \<in> set ds. is_digit c" and "no_line_break msg"
  shows "on_wasm_stderr (''0:'' @ ds @ '':'' @ msg) s =
           (if 1 \<le> parseInt ds \<and> parseInt ds \<le> lineCount s
            then addLineClass (parseInt ds - 1) s else s)
       \<and> (12 \<le> lineCount s \<longrightarrow> on_wasm_stderr ''0:12:syntax error'' s = addLineClass 11 s)
       \<and> on_wasm_stderr ''0:0:x'' s = s"
proof -
  have a: "on_wasm_stderr (''0:'' @ ds @ '':'' @ msg) s =
           (if 1 \<le> parseInt ds \<and> parseInt ds \<le> lineCount s
            then addLineClass (parseInt ds - 1) s else s)"
  proof -
    have "nat (int (parseInt ds) - 1) = parseInt ds - 1" by simp
    moreover have "(int (parseInt ds) - 1 \<ge> 0 \<and> int (parseInt ds) - 1 < int (lineCount s))
                    = (1 \<le> parseInt ds \<and> parseInt ds \<le> lineCount s)" by auto
    ultimately show ?thesis
      unfolding on_wasm_stderr_def match_error_form [OF assms] by (simp add: Let_def)
  qed
  have b: "12 \<le> lineCount s \<longrightarrow> on_wasm_stderr ''0:12:syntax error'' s = addLineClass 11 s"
    by (simp add: on_wasm_stderr_def is_digit_def parseInt_def digit_val_def Let_def)
  have c: "on_wasm_stderr ''0:0:x'' s = s"
    by (simp add: on_wasm_stderr_def is_digit_def parseInt_def digit_val_def Let_def)
  show ?thesis using a b c by simp
qed

theorem error_line_mapping_witness:
  "lineClasses (on_wasm_stderr ''0:2:bad'' three_lines) = [False, True, False]
   \<and> lineClasses (on_wasm_stderr ''0:4:bad'' three_lines) = [False, False, False]"
proof -
  have d2: "''2'' \<noteq> [] \<and> (\<forall>c \<in> set ''2''. is_digit c) \<and> no_line_break ''bad''"
    by (simp add: is_digit_def)
  have d4: "''4'' \<noteq> [] \<and> (\<forall>c \<in> set ''4''. is_digit c) \<and> no_line_break ''bad''"
    by (simp add: is_digit_def)
  have l: "lineClasses three_lines = [False, False, False]"
    by (simp add: three_lines_def new_editor_def count_lines_def)
  have p: "parseInt ''2'' = 2" "parseInt ''4'' = 4"
    by (simp_all add: parseInt_def digit_val_def)
  show ?thesis
    using error_line_mapping [of "''2''" "''bad''" three_lines]
          error_line_mapping [of "''4''" "''bad''" three_lines] d2 d4
    by (simp add: p l lineCount_def addLineClass_def)
qed

text \<open>
  Claim C2 as stated fails at \<^verbatim>\<open>0:0:x\<close>: \<^verbatim>\<open>cmLine\<close> is -1, the guard \<^verbatim>\<open>cmLine >= 0\<close>
  fails, and line 0 of a three-line document stays unmarked.
\<close>

theorem error_line_zero_counterexample:
  "lineClasses (on_wasm_stderr ''0:0:x'' three_lines) = [False, False, False]"
  by (simp add: on_wasm_stderr_def is_digit_def parseInt_def digit_val_def Let_def
        three_lines_def new_editor_def count_lines_def)

lemma change_listener_frame:
  "content (change_listener l s) = content s"
  "activeTab (change_listener l s) = activeTab s"
  "mode (change_listener l s) = mode s"
  "doc_text (change_listener l s) = doc_text s"
  "invoked (change_listener l s) = invoked s"
  "now (change_listener l s) = now s"
  by (simp_all add: change_listener_def clearErrorHighlighting_def setTimeout_def clearTimeout_def
        Let_def split: option.splits)

lemma listeners_frame:
  "content (foldl (\<lambda>s' l. change_listener l s') s ls) = content s
   \<and> activeTab (foldl (\<lambda>s' l. change_listener l s') s ls) = activeTab s
   \<and> mode (foldl (\<lambda>s' l. change_listener l s') s ls) = mode s
   \<and> doc_text (foldl (\<lambda>s' l. change_listener l s') s ls) = doc_text s
   \<and> invoked (foldl (\<lambda>s' l. change_listener l s') s ls) = invoked s
   \<and> now (foldl (\<lambda>s' l. change_listener l s') s ls) = now s"
  by (induction ls arbitrary: s) (simp_all add: change_listener_frame)

lemma change_listener_keeps_tracked:
  "timers_tracked s \<Longrightarrow> timers_tracked (change_listener l s)"
  using change_listener_tracked [of s "fst l" "snd l"] by (simp add: timers_tracked_def)

lemma listeners_timers:
  assumes "timers_tracked s" "ls \<noteq> []"
  shows "timers (foldl (\<lambda>s' l. change_listener l s') s ls) =
           [(last_handle s + length ls, now s + snd (last ls), fst (last ls))]"
  using assms
proof (induction ls arbitrary: s)
  case Nil
  then show ?case by simp
next
  case (Cons l ls)
  let ?s1 = "change_listener l s"
  have t1: "timers_tracked ?s1" using Cons.prems(1) by (rule change_listener_keeps_tracked)
  have e1: "timers ?s1 = [(last_handle s + 1, now s + snd l, fst l)]"
           "last_handle ?s1 = last_handle s + 1" "now ?s1 = now s"
    using change_listener_tracked [OF Cons.prems(1), of "fst l" "snd l"] by simp_all
  show ?case
  proof (cases "ls = []")
    case True
    then show ?thesis using e1 by simp
  next
    case False
    then show ?thesis using Cons.IH [OF t1 False] e1 by simp
  qed
qed

lemma setValue_frame:
  "content (setValue v s) = content s"
  "activeTab (setValue v s) = activeTab s"
  "mode (setValue v s) = mode s"
  "doc_text (setValue v s) = v"
  "invoked (setValue v s) = invoked s"
  using listeners_frame [of "s\<lparr>doc_text := v, lineClasses := replicate (count_lines v) False\<rparr>" "handlers s"]
  by (simp_all add: setValue_def fire_change_def)

lemma setValue_timers:
  assumes "timers s = []"
  shows "timers (setValue v s) =
           (if handlers s = [] then []
            else [(last_handle s + length (handlers s), now s + snd (last (handlers s)),
                   fst (last (handlers s)))])"
proof (cases "handlers s = []")
  case True
  then show ?thesis using assms by (simp add: setValue_def fire_change_def)
next
  case False
  let ?s = "s\<lparr>doc_text := v, lineClasses := replicate (count_lines v) False\<rparr>"
  have t: "timers_tracked ?s" using assms by (simp add: timers_tracked_def)
  show ?thesis using listeners_timers [OF t False] False by (simp add: setValue_def fire_change_def)
qed

text \<open>
  What \<^verbatim>\<open>switchTab(type, onSwitch)\<close> does, step by step. With the active buffer's name it
  changes nothing. With the other name it cancels the pending debounce timer and, when
  \<open>updateTimeout\<close> was set, calls \<^verbatim>\<open>onSwitch\<close>, if the caller passed one; it never calls
  the callback registered through \<^verbatim>\<open>onChange\<close>. It then stores the widget's text as the
  outgoing buffer's snapshot, makes the other buffer active, sets the mode, and loads the
  incoming buffer's text into the widget; through the widget's \<^verbatim>\<open>change\<close> event this
  starts a new debounce timer when a listener is registered.
\<close>

theorem switchTab_contract:
  "(type = activeTab s \<longrightarrow> switchTab type onSwitch s = s)
   \<and> (type \<noteq> activeTab s \<longrightarrow>
        content (switchTab type onSwitch s) = (content s)(activeTab s := doc_text s)
      \<and> activeTab (switchTab type onSwitch s) = type
      \<and> mode (switchTab type onSwitch s)
          = (if type = Frag then ''x-shader/x-fragment'' else ''x-shader/x-vertex'')
      \<and> doc_text (switchTab type onSwitch s) = content s type
      \<and> invoked (switchTab type onSwitch s)
          = invoked s @ (case updateTimeout s of
                           None \<Rightarrow> []
                         | Some h \<Rightarrow> (case onSwitch of None \<Rightarrow> [] | Some f \<Rightarrow> [(f, now s)]))
      \<and> (timers_tracked s \<longrightarrow>
            timers (switchTab type onSwitch s)
              = (if handlers s = [] then []
                 else [(last_handle s + length (handlers s), now s + snd (last (handlers s)),
                        fst (last (handlers s)))])))"
proof -
  have same: "type = activeTab s \<longrightarrow> switchTab type onSwitch s = s"
    by (simp add: switchTab_def)
  have other: "content (switchTab type onSwitch s) = (content s)(activeTab s := doc_text s)
      \<and> activeTab (switchTab type onSwitch s) = type
      \<and> mode (switchTab type onSwitch s)
          = (if type = Frag then ''x-shader/x-fragment'' else ''x-shader/x-vertex'')
      \<and> doc_text (switchTab type onSwitch s) = content s type
      \<and> invoked (switchTab type onSwitch s)
          = invoked s @ (case updateTimeout s of
                           None \<Rightarrow> []
                         | Some h \<Rightarrow> (case onSwitch of None \<Rightarrow> [] | Some f \<Rightarrow> [(f, now s)]))"
    if "type \<noteq> activeTab s"
    using that
    by (auto simp: switchTab_def Let_def setValue_frame getValue_def clearTimeout_def
          split: option.splits)
  have tm: "timers (switchTab type onSwitch s)
              = (if handlers s = [] then []
                 else [(last_handle s + length (handlers s), now s + snd (last (handlers s)),
                        fst (last (handlers s)))])"
    if "type \<noteq> activeTab s" "timers_tracked s"
  proof -
    have c: "timers (case updateTimeout s of Some h \<Rightarrow> clearTimeout h s | None \<Rightarrow> s) = []"
      using that(2) by (rule clear_tracked)
    show ?thesis
      using that(1) c
      by (cases "updateTimeout s"; cases onSwitch)
         (simp_all add: switchTab_def Let_def setValue_timers clearTimeout_def)
  qed
  show ?thesis using same other tm by blast
qed

theorem switchTab_contract_witness:
  "timers one_edit = [(1, 300, 7)]
   \<and> activeTab one_edit = Frag
   \<and> switchTab Frag (Some 9) one_edit = one_edit
   \<and> invoked (switchTab Vert (Some 9) one_edit) = [(9, 0)]
   \<and> content (switchTab Vert (Some 9) one_edit) Frag = ''a''
   \<and> doc_text (switchTab Vert (Some 9) one_edit) = ''// vert''
   \<and> timers (switchTab Vert (Some 9) one_edit) = [(2, 300, 7)]"
proof -
  have e: "timers one_edit = [(1, 300, 7)]" "activeTab one_edit = Frag" "updateTimeout one_edit = Some 1"
     "handlers one_edit = [(7, 300)]" "invoked one_edit = []" "now one_edit = 0" "last_handle one_edit = 1"
     "doc_text one_edit = ''a''" "content one_edit Vert = ''// vert''"
    by (simp_all add: one_edit_def editor_run_def demo_editor_def onChange_def new_editor_def
          setValue_def fire_change_def change_listener_def clearErrorHighlighting_def
          setTimeout_def Let_def)
  have t: "timers_tracked one_edit" by (simp add: timers_tracked_def e)
  show ?thesis
    using switchTab_contract [of Frag one_edit "Some 9"] switchTab_contract [of Vert one_edit "Some 9"] t
    by (simp add: e)
qed

text \<open>
  Claim C4. \<^verbatim>\<open>switchTab\<close> to another buffer is to flush a pending change notification,
  that is, to deliver it at once; the code says so itself (\<^verbatim>\<open>// Flush pending updates\<close>).
  It does not. After one edit a notification for callback 7 is pending, and left alone it
  is delivered 300 ms after the edit. \<^verbatim>\<open>switchTab('vert')\<close> cancels it: without
  \<^verbatim>\<open>onSwitch\<close> no callback runs, then or later; with an \<^verbatim>\<open>onSwitch\<close> (callback 9, which
  the tab handler of the view controller passes as an empty function) only that one
  runs. Callback 7 never runs, although the edit is now the snapshot of the outgoing
  buffer: the edit is lost to the listener.
\<close>

theorem switchTab_drops_notification:
  "timers one_edit = [(1, 300, 7)]
   \<and> invoked (advance 1000 one_edit) = [(7, 300)]
   \<and> invoked (switchTab Vert None one_edit) = []
   \<and> invoked (advance 1000 (switchTab Vert None one_edit)) = []
   \<and> invoked (advance 1000 (switchTab Vert (Some 9) one_edit)) = [(9, 0)]
   \<and> content (switchTab Vert (Some 9) one_edit) Frag = ''a''"
  by (simp add: one_edit_def editor_run_def demo_editor_def onChange_def new_editor_def
        setValue_def fire_change_def change_listener_def clearErrorHighlighting_def
        setTimeout_def clearTimeout_def switchTab_def getValue_def advance_def fire_def
        timer_body_def Let_def)

theorem debounce_five_edits_witness:
  "invoked (editor_run [Edit ''a'', Wait 50, Edit ''ab'', Wait 50, Edit ''abc'', Wait 50,
                        Edit ''abcd'', Wait 50, Edit ''abcde'', Wait 300] demo_editor) = [(7, 500)]
   \<and> invoked (editor_run [Edit ''a'', Wait 50, Edit ''ab'', Wait 50, Edit ''abc'', Wait 50,
                        Edit ''abcd'', Wait 50, Edit ''abcde'', Wait 299] demo_editor) = []
   \<and> invoked (editor_run [Edit ''a'', Wait 50, Edit ''ab'', Wait 50, Edit ''abc'', Wait 50,
                        Edit ''abcd'', Wait 50, Edit ''void main() {}'', Wait 300] demo_editor) = []"
proof -
  have h: "handlers demo_editor = [(7, 300)]"
    by (simp add: demo_editor_def onChange_def new_editor_def)
  have t: "timers_tracked demo_editor"
    by (simp add: timers_tracked_def demo_editor_def onChange_def new_editor_def)
  have e: "invoked demo_editor = []" "now demo_editor = 0" "activeTab demo_editor = Frag"
          "content demo_editor Frag = ''void main() {}''"
    by (simp_all add: demo_editor_def onChange_def new_editor_def)
  show ?thesis
    using debounce_five_edits [OF h t, of "''a''" "''ab''" "''abc''" "''abcd''" "''abcde''"]
          debounce_five_edits [OF h t, of "''a''" "''ab''" "''abc''" "''abcd''" "''void main() {}''"]
    by (simp add: e)
qed

lemma timer_body_tracked: "timers_tracked s \<Longrightarrow> timers s = [] \<Longrightarrow> timers_tracked (timer_body cb s)"
  by (simp add: timers_tracked_def timer_body_def Let_def)

lemma setValue_tracked: "timers_tracked s \<Longrightarrow> timers_tracked (setValue v s)"
proof -
  assume t: "timers_tracked s"
  have "timers_tracked (foldl (\<lambda>s' l. change_listener l s') s' ls)" if "timers_tracked s'" for s' ls
    using that by (induction ls arbitrary: s') (simp_all add: change_listener_keeps_tracked)
  moreover have "timers_tracked (s\<lparr>doc_text := v, lineClasses := replicate (count_lines v) False\<rparr>)"
    using t by (simp add: timers_tracked_def)
  ultimately show ?thesis by (simp add: setValue_def fire_change_def)
qed

lemma fire_empty: "timers s = [] \<Longrightarrow> timers (fire x s) = []"
  by (simp add: fire_def timer_body_def Let_def)

lemma fires_empty: "timers s = [] \<Longrightarrow> timers (foldl (\<lambda>s' x. fire x s') s xs) = []"
  by (induction xs arbitrary: s) (simp_all add: fire_empty)

lemma fire_tracked:
  assumes "timers_tracked s" "x \<in> set (timers s)"
  shows "timers (fire x s) = []"
proof -
  have "\<forall>y \<in> set (timers s). fst y = fst x"
    using assms unfolding timers_tracked_def by (metis option.inject)
  then have "filter (\<lambda>y. fst y \<noteq> fst x) (timers s) = []"
    by (simp add: filter_empty_conv)
  then show ?thesis by (simp add: fire_def timer_body_def Let_def)
qed

lemma advance_tracked:
  assumes "timers_tracked s"
  shows "timers_tracked (advance ms s)"
proof -
  let ?due = "sort_key (\<lambda>x. fst (snd x)) (filter (\<lambda>x. fst (snd x) \<le> now s + ms) (timers s))"
  have sub: "set ?due \<subseteq> set (timers s)" by auto
  have "timers_tracked (foldl (\<lambda>s' x. fire x s') s ?due)"
  proof (cases ?due)
    case Nil
    then show ?thesis using assms by simp
  next
    case (Cons x xs)
    then have "x \<in> set (timers s)" using sub by (metis list.set_intros(1) subsetD)
    then have "timers (fire x s) = []" using assms fire_tracked by blast
    then have "timers (foldl (\<lambda>s' x. fire x s') (fire x s) xs) = []" by (rule fires_empty)
    then show ?thesis using Cons by (simp add: timers_tracked_def)
  qed
  then show ?thesis by (simp add: advance_def Let_def timers_tracked_def)
qed

lemma switchTab_tracked:
  assumes "timers_tracked s"
  shows "timers_tracked (switchTab type onSwitch s)"
proof (cases "type = activeTab s")
  case True
  then show ?thesis using assms by (simp add: switchTab_def)
next
  case False
  have c: "timers (case updateTimeout s of Some h \<Rightarrow> clearTimeout h s | None \<Rightarrow> s) = []"
    using assms by (rule clear_tracked)
  define s1 where "s1 =
          (case updateTimeout s of
             None \<Rightarrow> s
           | Some h \<Rightarrow>
               (case onSwitch of
                  None \<Rightarrow> clearTimeout h s
                | Some f \<Rightarrow> (clearTimeout h s)\<lparr>invoked := invoked s @ [(f, now s)]\<rparr>))"
  have t1: "timers_tracked s1"
    using c unfolding s1_def
    by (cases "updateTimeout s"; cases onSwitch) (simp_all add: timers_tracked_def clearTimeout_def)
  define s4 where "s4 =
          (if type = Frag
           then s1\<lparr>content := (content s1)(activeTab s1 := getValue s1), activeTab := type,
                   mode := ''x-shader/x-fragment''\<rparr>
           else s1\<lparr>content := (content s1)(activeTab s1 := getValue s1), activeTab := type,
                   mode := ''x-shader/x-vertex''\<rparr>)"
  have t4: "timers_tracked s4" using t1 by (simp add: s4_def timers_tracked_def)
  have "switchTab type onSwitch s = setValue (content s4 (activeTab s4)) s4"
    using False by (simp add: switchTab_def Let_def s1_def s4_def)
  then show ?thesis using setValue_tracked [OF t4] by simp
qed

lemma editor_run_tracked:
  "timers_tracked s \<Longrightarrow> timers_tracked (editor_run ins s)"
  unfolding editor_run_def
proof (induction ins arbitrary: s)
  case Nil
  then show ?case by simp
next
  case (Cons i ins)
  have "timers_tracked (editor_step s i)"
    using Cons.prems by (cases i) (simp_all add: setValue_tracked advance_tracked switchTab_tracked)
  then show ?case using Cons.IH by simp
qed

lemma new_editor_tracked: "timers_tracked (onChange cb d (new_editor f v))"
  by (simp add: timers_tracked_def onChange_def new_editor_def)


section \<open>Remote persistence client: proofs\<close>

lemma load_failed_id: "currentGistId (snd (load_failed cb e g)) = None \<and> fst (load_failed cb e g) = Some e"
  by (simp add: load_failed_def call_back_def log_event_def)

lemma load_parsed_result:
  "fst (load_parsed cb r gid info c g) =
     (case JSON_parse r c of Throws e \<Rightarrow> Some e | Returns json \<Rightarrow> None)"
  by (simp add: load_parsed_def load_failed_def Let_def split: outcome.splits)

lemma load_parsed_failed:
  "fst (load_parsed cb r gid info c g) = Some e \<Longrightarrow> currentGistId (snd (load_parsed cb r gid info c g)) = None"
  by (auto simp: load_parsed_def Let_def load_failed_id split: outcome.splits)

lemma resume_fails_iff: "(fst (loadGist_resume cb r gid g) \<noteq> None) = load_fails r"
  by (auto simp: loadGist_resume_def load_fails_def load_failed_id load_parsed_result Let_def
        split: outcome.splits option.splits)

lemma resume_failed_id:
  assumes "fst (loadGist_resume cb r gid g) = Some e"
  shows "currentGistId (snd (loadGist_resume cb r gid g)) = None"
  using assms
  by (auto simp: loadGist_resume_def load_failed_id load_parsed_failed Let_def
        split: outcome.splits option.splits if_splits)

lemma begin_current:
  "currentGistId g = Some gid \<Longrightarrow>
     loadGist_begin cb gid g = (False, log_event (Console (''Gist '' @ gid @ '' already loading/loaded.'')) g)"
  by (simp add: loadGist_begin_def)

lemma begin_other:
  "currentGistId g \<noteq> Some gid \<Longrightarrow>
     fst (loadGist_begin cb gid g) = True
   \<and> currentGistId (snd (loadGist_begin cb gid g)) = Some gid
   \<and> gist_fetches gid (snd (loadGist_begin cb gid g)) = gist_fetches gid g + 1"
  by (simp add: loadGist_begin_def gist_fetches_def log_event_def call_back_def)

lemma begin_twice:
  "fst (loadGist_begin cb2 gid (snd (loadGist_begin cb gid g))) = False
   \<and> gist_fetches gid (snd (loadGist_begin cb2 gid (snd (loadGist_begin cb gid g))))
       = gist_fetches gid g + (if currentGistId g = Some gid then 0 else 1)"
proof (cases "currentGistId g = Some gid")
  case True
  then show ?thesis
    by (simp add: begin_current gist_fetches_def log_event_def)
next
  case False
  have c: "currentGistId (snd (loadGist_begin cb gid g)) = Some gid"
    using begin_other [OF False] by simp
  show ?thesis
    using False begin_other [OF False, of cb] begin_current [OF c, of cb2]
    by (simp add: gist_fetches_def log_event_def)
qed

text \<open>
  Claim C5. \<^verbatim>\<open>loadGist\<close> with the identifier \<open>currentGistId\<close> holds only logs a line: no
  request, no other change. Of two calls with the same identifier in immediate succession
  the second sends nothing, so the two send one request for the gist (none when it was
  current before). A load fails exactly when the request is rejected or answered without
  \<^verbatim>\<open>ok\<close>, the body does not parse, no JSON file is found, or the file's text cannot be
  fetched or parsed; then \<open>currentGistId\<close> is null afterwards, and the next call with
  the same identifier sends a request again.
\<close>

theorem loadGist_guard:
  "(currentGistId g = Some gid \<longrightarrow>
      loadGist cb r gid g = (None, log_event (Console (''Gist '' @ gid @ '' already loading/loaded.'')) g))
   \<and> fst (loadGist_begin cb2 gid (snd (loadGist_begin cb gid g))) = False
   \<and> gist_fetches gid (snd (loadGist_begin cb2 gid (snd (loadGist_begin cb gid g))))
       = gist_fetches gid g + (if currentGistId g = Some gid then 0 else 1)
   \<and> ((fst (loadGist_resume cb r gid g) \<noteq> None) = load_fails r)
   \<and> (load_fails r \<longrightarrow>
        currentGistId (snd (loadGist_resume cb r gid g)) = None
      \<and> fst (loadGist_begin cb2 gid (snd (loadGist_resume cb r gid g))) = True
      \<and> gist_fetches gid (snd (loadGist_begin cb2 gid (snd (loadGist_resume cb r gid g))))
          = gist_fetches gid (snd (loadGist_resume cb r gid g)) + 1)"
proof -
  have a: "currentGistId g = Some gid \<longrightarrow>
      loadGist cb r gid g = (None, log_event (Console (''Gist '' @ gid @ '' already loading/loaded.'')) g)"
    by (simp add: loadGist_def begin_current)
  have d: "load_fails r \<longrightarrow>
        currentGistId (snd (loadGist_resume cb r gid g)) = None
      \<and> fst (loadGist_begin cb2 gid (snd (loadGist_resume cb r gid g))) = True
      \<and> gist_fetches gid (snd (loadGist_begin cb2 gid (snd (loadGist_resume cb r gid g))))
          = gist_fetches gid (snd (loadGist_resume cb r gid g)) + 1"
  proof
    assume "load_fails r"
    then obtain e where "fst (loadGist_resume cb r gid g) = Some e"
      using resume_fails_iff [of cb r gid g] by auto
    then have n: "currentGistId (snd (loadGist_resume cb r gid g)) = None"
      by (rule resume_failed_id)
    then have "currentGistId (snd (loadGist_resume cb r gid g)) \<noteq> Some gid" by simp
    from begin_other [OF this, of cb2] n
    show "currentGistId (snd (loadGist_resume cb r gid g)) = None
      \<and> fst (loadGist_begin cb2 gid (snd (loadGist_resume cb r gid g))) = True
      \<and> gist_fetches gid (snd (loadGist_begin cb2 gid (snd (loadGist_resume cb r gid g))))
          = gist_fetches gid (snd (loadGist_resume cb r gid g)) + 1"
      by simp
  qed
  show ?thesis using a begin_twice [of cb2 gid cb g] resume_fails_iff [of cb r gid g] d by blast
qed






theorem loadGist_guard_witness:
  "gist_fetches ''abc'' (snd (loadGist_begin all_callbacks ''abc'' (snd (loadGist_begin all_callbacks ''abc'' signed_in)))) = 1
   \<and> load_fails not_found
   \<and> currentGistId (snd (loadGist_begin all_callbacks ''abc'' signed_in)) = Some ''abc''
   \<and> currentGistId (snd (loadGist_resume all_callbacks not_found ''abc''
                            (snd (loadGist_begin all_callbacks ''abc'' signed_in)))) = None
   \<and> fst (loadGist_begin all_callbacks ''abc''
            (snd (loadGist_resume all_callbacks not_found ''abc''
                    (snd (loadGist_begin all_callbacks ''abc'' signed_in))))) = True"
proof -
  have f: "load_fails not_found" by (simp add: load_fails_def not_found_def)
  have c: "currentGistId signed_in \<noteq> Some ''abc''" "gist_fetches ''abc'' signed_in = 0"
    by (simp_all add: signed_in_def gist_fetches_def)
  have b: "currentGistId (snd (loadGist_begin all_callbacks ''abc'' signed_in)) = Some ''abc''"
    by (simp add: loadGist_begin_def signed_in_def log_event_def call_back_def)
  show ?thesis
    using f c b
      loadGist_guard [of signed_in "''abc''" all_callbacks not_found all_callbacks]
      loadGist_guard [of "snd (loadGist_begin all_callbacks ''abc'' signed_in)" "''abc''"
                         all_callbacks not_found all_callbacks]
    by simp
qed



end
